theory Spec2Isabelle
  imports
    Complex_Main
    "HOL-Library.Char_ord"
    "HOL-Library.List_Lexorder"
    "HOL-Library.Product_Lexorder"
    "HOL-Library.AList"
    "HOL-Library.Multiset"
begin

section \<open>Python primitives used by the statistics code\<close>

text \<open>
  Every field of a record reaches the statistics code as a Python \<^verbatim>\<open>str\<close>: the
  columns of \<^verbatim>\<open>dedimania_records\<close> are declared \<^verbatim>\<open>TEXT\<close> and are filled from the
  text of HTML cells. A \<^verbatim>\<open>str\<close> is modelled as a \<^typ>\<open>string\<close>, a character being
  the code point of that number: the model covers the strings of code points below 256
  (Latin-1), and \<open>CHR 0xB2\<close> is the superscript two. \<^verbatim>\<open>a < b\<close> on strings is the
  lexicographic order of the code points, which is the order of \<^typ>\<open>string\<close> here.
  A missing field is the empty string (the default of \<^verbatim>\<open>record.get('Rank', '')\<close>),
  the only falsy \<^verbatim>\<open>str\<close>.
\<close>

text \<open>
  The decimal digits, which are the characters that \<^verbatim>\<open>int()\<close> reads as digits.
\<close>

definition is_digit :: "char \<Rightarrow> bool" where
  "is_digit c = (c \<in> set ''0123456789'')"

text \<open>
  The characters that \<^verbatim>\<open>str.isdigit()\<close> accepts: the decimal digits and the superscript
  digits two, three and one.
\<close>

definition is_digit_like :: "char \<Rightarrow> bool" where
  "is_digit_like c = (is_digit c \<or> c \<in> set [CHR 0xB2, CHR 0xB3, CHR 0xB9])"

text \<open>\<^verbatim>\<open>str.isdigit()\<close>: at least one character, and every character is accepted.\<close>

definition isdigit :: "string \<Rightarrow> bool" where
  "isdigit s = (s \<noteq> [] \<and> list_all is_digit_like s)"

definition digit_val :: "char \<Rightarrow> int" where
  "digit_val c = int (of_char c) - 48"

text \<open>
  The whitespace that \<^verbatim>\<open>int()\<close> drops before and after the number: tab, line feed,
  vertical tab, form feed, carriage return, space, next line (\<open>0x85\<close>) and no-break
  space (\<open>0xA0\<close>).
\<close>

definition is_space :: "char \<Rightarrow> bool" where
  "is_space c =
     (c \<in> set [CHR 0x09, CHR 0x0A, CHR 0x0B, CHR 0x0C, CHR 0x0D, CHR 0x20, CHR 0x85, CHR 0xA0])"

definition int_strip :: "string \<Rightarrow> string" where
  "int_strip s = rev (dropWhile is_space (rev (dropWhile is_space s)))"

text \<open>
  The digits of a decimal literal: single underscores are allowed between digits.
  \<open>None\<close> is the \<^verbatim>\<open>ValueError\<close> of \<^verbatim>\<open>int()\<close>.
\<close>

fun digits_value :: "int \<Rightarrow> string \<Rightarrow> int option" where
  "digits_value acc [] = Some acc"
| "digits_value acc (c # cs) =
     (if is_digit c then digits_value (acc * 10 + digit_val c) cs
      else if c = CHR ''_'' then
        (case cs of
           [] \<Rightarrow> None
         | d # _ \<Rightarrow> if is_digit d then digits_value acc cs else None)
      else None)"

text \<open>
  The largest number of digits that \<^verbatim>\<open>int()\<close> converts
  (\<^verbatim>\<open>sys.int_info.default_max_str_digits\<close>); signs, underscores and the surrounding
  whitespace do not count.
\<close>

definition max_str_digits :: nat where
  "max_str_digits = 4300"

text \<open>
  \<^verbatim>\<open>int(s)\<close> for a string: surrounding whitespace is dropped, one sign is allowed, then
  a decimal literal of at most \<open>max_str_digits\<close> digits must follow.
\<close>

definition py_int :: "string \<Rightarrow> int option" where
  "py_int s =
     (case int_strip s of
        [] \<Rightarrow> None
      | c # cs \<Rightarrow>
          (let body = (if c = CHR ''+'' \<or> c = CHR ''-'' then cs else c # cs) in
           case body of
             [] \<Rightarrow> None
           | d # _ \<Rightarrow>
               if is_digit d \<and> length (filter is_digit body) \<le> max_str_digits
               then map_option (\<lambda>n. if c = CHR ''-'' then - n else n) (digits_value 0 body)
               else None))"

section \<open>Records\<close>

text \<open>
  \<^verbatim>\<open>gaming_leaderboard.py\<close> handles a record as the dict built by
  \<^verbatim>\<open>get_player_records_from_db\<close>; its keys are the fields of \<open>drecord\<close>.
\<close>

record drecord =
  Login :: string
  NickName :: string
  Challenge :: string
  Record_time :: string
  Rank :: string
  RecordDate :: string
  Envir :: string
  Mode :: string

text \<open>
  \<^verbatim>\<open>weekly_team_stats.py\<close> handles a record as the 9-tuple of a database row, unpacked as
  \<^verbatim>\<open>login, nick, track, time, rank, date, envir, mode, server = record\<close>.
\<close>

record row =
  r_login :: string
  r_nick :: string
  r_track :: string
  r_time :: string
  r_rank :: string
  r_date :: string
  r_envir :: string
  r_mode :: string
  r_server :: string

section \<open>Deduplication\<close>

text \<open>
  \<^verbatim>\<open>rank = int(rank_str) if rank_str.isdigit() else 999\<close>, inside
  \<^verbatim>\<open>try/except: rank = 999\<close> (\<^verbatim>\<open>gaming_leaderboard.py\<close>).
\<close>

definition rank_or_999_isdigit :: "string \<Rightarrow> int" where
  "rank_or_999_isdigit rank_str =
     (if isdigit rank_str
      then (case py_int rank_str of Some n \<Rightarrow> n | None \<Rightarrow> 999)
      else 999)"

text \<open>
  \<^verbatim>\<open>rank_int = int(rank) if rank else 999\<close>, inside \<^verbatim>\<open>try/except: rank_int = 999\<close>
  (\<^verbatim>\<open>WeeklyStatsGenerator.deduplicate_records\<close>).
\<close>

definition rank_or_999_truthy :: "string \<Rightarrow> int" where
  "rank_or_999_truthy rank =
     (if rank \<noteq> []
      then (case py_int rank of Some n \<Rightarrow> n | None \<Rightarrow> 999)
      else 999)"

text \<open>
  The body of the loop, which the two functions share word for word but for the way
  they read the fields (\<open>key_of\<close>) and coerce the rank (\<open>rank_of\<close>). The dict
  \<^verbatim>\<open>track_records\<close> is an association list in insertion order: assigning to a key
  that is present keeps its position, a new key goes to the end, which is what
  \<^const>\<open>AList.update\<close> does.
\<close>

definition dedup_step ::
  "('r \<Rightarrow> string \<times> string) \<Rightarrow> ('r \<Rightarrow> int) \<Rightarrow>
   ((string \<times> string) \<times> 'r) list \<Rightarrow> 'r \<Rightarrow> ((string \<times> string) \<times> 'r) list" where
  "dedup_step key_of rank_of track_records record =
     (let (login, track) = key_of record in
      if login = [] \<or> track = [] then track_records
      else
        let rank = rank_of record; key = (login, track) in
        (case map_of track_records key of
           None \<Rightarrow> AList.update key record track_records
         | Some existing \<Rightarrow>
             if rank < rank_of existing
             then AList.update key record track_records
             else track_records))"

definition dedup_loop ::
  "('r \<Rightarrow> string \<times> string) \<Rightarrow> ('r \<Rightarrow> int) \<Rightarrow> 'r list \<Rightarrow> ((string \<times> string) \<times> 'r) list" where
  "dedup_loop key_of rank_of records = foldl (dedup_step key_of rank_of) [] records"

definition dkey :: "drecord \<Rightarrow> string \<times> string" where
  "dkey record = (Login record, Challenge record)"

definition drank :: "drecord \<Rightarrow> int" where
  "drank record = rank_or_999_isdigit (Rank record)"

definition deduplicate_player_records :: "drecord list \<Rightarrow> drecord list" where
  "deduplicate_player_records records = map snd (dedup_loop dkey drank records)"

definition rkey :: "row \<Rightarrow> string \<times> string" where
  "rkey record = (r_login record, r_track record)"

definition rrank :: "row \<Rightarrow> int" where
  "rrank record = rank_or_999_truthy (r_rank record)"

definition deduplicate_records :: "row list \<Rightarrow> row list" where
  "deduplicate_records records = map snd (dedup_loop rkey rrank records)"

text \<open>
  \<^verbatim>\<open>get_player_records_from_db\<close> turns a database row into the dict: column 0 is
  \<^verbatim>\<open>'Login'\<close>, column 1 \<^verbatim>\<open>'NickName'\<close>, and so on. It is how the same record looks in
  the two input shapes.
\<close>

definition record_dict :: "row \<Rightarrow> drecord" where
  "record_dict record =
     \<lparr>Login = r_login record, NickName = r_nick record, Challenge = r_track record,
      Record_time = r_time record, Rank = r_rank record, RecordDate = r_date record,
      Envir = r_envir record, Mode = r_mode record\<rparr>"

section \<open>Competition multiplier and points\<close>

text \<open>
  \<^verbatim>\<open>get_competition_multiplier\<close> (\<^verbatim>\<open>gaming_leaderboard.py\<close>). The argument is an
  \<^verbatim>\<open>int\<close> or \<^verbatim>\<open>None\<close>. The float constants are decimal fractions and are modelled by
  the exact rationals they denote: \<^verbatim>\<open>0.1\<close> is \<open>1 / 10\<close>.
\<close>

definition get_competition_multiplier :: "int option \<Rightarrow> rat" where
  "get_competition_multiplier total_records =
     (case total_records of
        None \<Rightarrow> 5 / 10
      | Some n \<Rightarrow>
          if n \<le> 0 then 5 / 10
          else if n = 1 then 1 / 10
          else if n < 5 then 2 / 10
          else if n < 10 then 4 / 10
          else if n < 15 then 6 / 10
          else if n < 20 then 8 / 10
          else 10 / 10)"

text \<open>
  The base points of one record, the inner \<^verbatim>\<open>if\<close> of \<^verbatim>\<open>calculate_points\<close>. The call
  \<^verbatim>\<open>int(rank_str)\<close> stands in no \<^verbatim>\<open>try\<close> there, so its \<^verbatim>\<open>ValueError\<close> leaves the
  function: it is the \<open>Inl\<close> branch, taken for a rank that \<^verbatim>\<open>isdigit()\<close> accepts and
  \<^verbatim>\<open>int()\<close> rejects.
\<close>

datatype py_error = ValueError

definition base_points :: "string \<Rightarrow> py_error + int" where
  "base_points rank_str =
     (if isdigit rank_str then
        (case py_int rank_str of
           None \<Rightarrow> Inl ValueError
         | Some rank \<Rightarrow>
             Inr (if rank = 1 then 5
                  else if rank \<le> 3 then 3
                  else if rank \<le> 5 then 2
                  else 1))
      else if rank_str \<noteq> [] then Inr 1
      else Inr 0)"

text \<open>
  \<^verbatim>\<open>round(points, 1)\<close> on a rational: the nearest multiple of one tenth, a value half
  way between two of them going to the even one.
\<close>

definition round1 :: "rat \<Rightarrow> rat" where
  "round1 x =
     (let y = x * 10; f = \<lfloor>y\<rfloor>; d = y - of_int f in
      (if d < 1 / 2 then of_int f
       else if 1 / 2 < d then of_int (f + 1)
       else if even f then of_int f
       else of_int (f + 1)) / 10)"

text \<open>
  The loop of \<^verbatim>\<open>calculate_points\<close>; \<^verbatim>\<open>challenge_cache\<close> is the dict from challenge name
  to the number of players, and \<^verbatim>\<open>challenge_cache.get(name, None)\<close> is the lookup in the
  map.
\<close>

fun points_loop :: "(string \<rightharpoonup> int) \<Rightarrow> rat \<Rightarrow> drecord list \<Rightarrow> py_error + rat" where
  "points_loop challenge_cache points [] = Inr points"
| "points_loop challenge_cache points (record # records) =
     (let multiplier = get_competition_multiplier (challenge_cache (Challenge record)) in
      case base_points (Rank record) of
        Inl e \<Rightarrow> Inl e
      | Inr base \<Rightarrow> points_loop challenge_cache (points + of_int base * multiplier) records)"

definition calculate_points :: "drecord list \<Rightarrow> (string \<rightharpoonup> int) \<Rightarrow> py_error + rat" where
  "calculate_points records challenge_cache =
     (case points_loop challenge_cache 0 records of
        Inl e \<Rightarrow> Inl e
      | Inr points \<Rightarrow> Inr (round1 points))"

section \<open>Leaderboard order\<close>

text \<open>
  A row of \<^verbatim>\<open>player_table\<close> is the tuple
  \<^verbatim>\<open>(nickname, top5, top3, top1, total_records, avg_rank, points, login)\<close>.
\<close>

record player_row =
  pt_nickname :: string
  pt_top5 :: int
  pt_top3 :: int
  pt_top1 :: int
  pt_total_records :: int
  pt_avg_rank :: rat
  pt_points :: rat
  pt_login :: string

text \<open>
  \<^verbatim>\<open>xs.sort(key=key, reverse=True)\<close> and \<^verbatim>\<open>sorted(xs, key=key, reverse=True)\<close>: Python
  reverses the list, sorts it with its stable ascending sort and reverses the result.
  Tuples are compared lexicographically, which is the order of pairs here.
\<close>

definition py_sort_reverse :: "('a \<Rightarrow> 'k::linorder) \<Rightarrow> 'a list \<Rightarrow> 'a list" where
  "py_sort_reverse key xs = rev (sort_key key (rev xs))"

text \<open>
  \<^verbatim>\<open>key=lambda x: (x[6], x[3], x[2], x[1])\<close>, the key of both
  \<^verbatim>\<open>player_table.sort\<close> and \<^verbatim>\<open>prev_player_table.sort\<close>.
\<close>

definition leaderboard_key :: "player_row \<Rightarrow> rat \<times> int \<times> int \<times> int" where
  "leaderboard_key x = (pt_points x, pt_top1 x, pt_top3 x, pt_top5 x)"

definition sort_player_table :: "player_row list \<Rightarrow> player_row list" where
  "sort_player_table player_table = py_sort_reverse leaderboard_key player_table"

section \<open>The nickname table of a generator\<close>

text \<open>
  The state of a \<^verbatim>\<open>WeeklyStatsGenerator\<close>: \<^verbatim>\<open>__init__\<close> sets \<^verbatim>\<open>self.db_path\<close> and
  \<^verbatim>\<open>self._latest_nicks_cache = None\<close>. A method that assigns to \<^verbatim>\<open>self\<close> returns the
  new state next to its result.
\<close>

record generator =
  db_path :: string
  latest_nicks_cache :: "(string \<times> string) list option"

definition new_generator :: "string \<Rightarrow> generator" where
  "new_generator path = \<lparr>db_path = path, latest_nicks_cache = None\<rparr>"

text \<open>
  The loop body of \<^verbatim>\<open>get_all_latest_nicknames\<close> on its two dicts.
\<close>

definition nick_step ::
  "(string \<times> string) list \<times> (string \<times> string) list \<Rightarrow> row \<Rightarrow>
   (string \<times> string) list \<times> (string \<times> string) list" where
  "nick_step tables record =
     (let (login_to_nick, login_to_latest_date) = tables;
          login = r_login record; nick = r_nick record; date = r_date record in
      if nick \<noteq> [] then
        (if (case map_of login_to_latest_date login of
               None \<Rightarrow> True
             | Some latest \<Rightarrow> latest < date)
         then (AList.update login nick login_to_nick,
               AList.update login date login_to_latest_date)
         else (login_to_nick, login_to_latest_date))
      else (login_to_nick, login_to_latest_date))"

definition latest_nicknames :: "row list \<Rightarrow> (string \<times> string) list" where
  "latest_nicknames records = fst (foldl nick_step ([], []) records)"

text \<open>
  \<^verbatim>\<open>get_all_latest_nicknames\<close>: a table that was stored by an earlier call is returned
  whatever the argument is.
\<close>

definition get_all_latest_nicknames ::
  "generator \<Rightarrow> row list \<Rightarrow> (string \<times> string) list \<times> generator" where
  "get_all_latest_nicknames self records =
     (case latest_nicks_cache self of
        Some cached \<Rightarrow> (cached, self)
      | None \<Rightarrow>
          (let login_to_nick = latest_nicknames records in
           (login_to_nick, self\<lparr>latest_nicks_cache := Some login_to_nick\<rparr>)))"

text \<open>
  \<^verbatim>\<open>login_to_nick.get(login, login)\<close>.
\<close>

definition nick_of :: "(string \<times> string) list \<Rightarrow> string \<Rightarrow> string" where
  "nick_of login_to_nick login =
     (case map_of login_to_nick login of None \<Rightarrow> login | Some nick \<Rightarrow> nick)"

section \<open>Times\<close>

text \<open>
  \<^verbatim>\<open>time_str.split(':')\<close>.
\<close>

fun split_on :: "char \<Rightarrow> string \<Rightarrow> string list" where
  "split_on sep [] = [[]]"
| "split_on sep (c # cs) =
     (if c = sep then [] # split_on sep cs
      else (case split_on sep cs of [] \<Rightarrow> [[c]] | p # ps \<Rightarrow> (c # p) # ps))"

text \<open>
  The body of the \<^verbatim>\<open>try\<close> of \<^verbatim>\<open>format_time\<close>; \<open>None\<close> is an exception raised in it.
  Floating-point numbers stay abstract: \<open>to_float\<close> is \<^verbatim>\<open>float(s)\<close> (\<open>None\<close> when it raises
  \<^verbatim>\<open>ValueError\<close>) and \<open>minsec m s\<close> is \<^verbatim>\<open>m * 60 + s\<close>.
\<close>

definition parse_time :: "(string \<Rightarrow> 'f option) \<Rightarrow> ('f \<Rightarrow> 'f \<Rightarrow> 'f) \<Rightarrow> string \<Rightarrow> 'f option" where
  "parse_time to_float minsec time_str =
     (case (CHR '':'' \<in> set time_str, split_on CHR '':'' time_str) of
        (True, [minutes, seconds]) \<Rightarrow>
          (case to_float minutes of
             None \<Rightarrow> None
           | Some m \<Rightarrow> (case to_float seconds of None \<Rightarrow> None | Some s \<Rightarrow> Some (minsec m s)))
      | _ \<Rightarrow> to_float time_str)"

text \<open>
  \<^verbatim>\<open>format_time\<close>; \<open>infinity\<close> is \<^verbatim>\<open>float('inf')\<close>.
\<close>

definition format_time :: "(string \<Rightarrow> 'f option) \<Rightarrow> ('f \<Rightarrow> 'f \<Rightarrow> 'f) \<Rightarrow> 'f \<Rightarrow> string \<Rightarrow> 'f" where
  "format_time to_float minsec infinity time_str =
     (if time_str = [] then infinity
      else (case parse_time to_float minsec time_str of None \<Rightarrow> infinity | Some seconds \<Rightarrow> seconds))"

section \<open>Rivalry detection\<close>

text \<open>
  \<^verbatim>\<open>detect_rivalries\<close> first groups the records by track. An element of
  \<^verbatim>\<open>track_records[track]\<close> is the dict with the keys \<^verbatim>\<open>login\<close>, \<^verbatim>\<open>nick\<close>, \<^verbatim>\<open>rank\<close>
  and \<^verbatim>\<open>time\<close>.
\<close>

record track_entry =
  e_login :: string
  e_nick :: string
  e_rank :: int
  e_time :: string

text \<open>
  \<^verbatim>\<open>rank_int = int(rank) if rank else 999\<close>; \<open>None\<close> is the exception of \<^verbatim>\<open>int\<close>, which
  the loop answers with \<^verbatim>\<open>except: continue\<close>.
\<close>

definition rivalry_rank :: "string \<Rightarrow> int option" where
  "rivalry_rank rank = (if rank \<noteq> [] then py_int rank else Some 999)"

text \<open>
  One round of the grouping loop. \<^verbatim>\<open>track_records\<close> is a \<^verbatim>\<open>defaultdict(list)\<close>; the
  exception is raised before the dict is touched.
\<close>

definition group_step ::
  "(string \<times> track_entry list) list \<Rightarrow> row \<Rightarrow> (string \<times> track_entry list) list" where
  "group_step track_records record =
     (case rivalry_rank (r_rank record) of
        None \<Rightarrow> track_records
      | Some rank_int \<Rightarrow>
          AList.update (r_track record)
            ((case map_of track_records (r_track record) of None \<Rightarrow> [] | Some l \<Rightarrow> l) @
             [\<lparr>e_login = r_login record, e_nick = r_nick record, e_rank = rank_int,
               e_time = r_time record\<rparr>])
            track_records)"

definition group_by_track :: "row list \<Rightarrow> (string \<times> track_entry list) list" where
  "group_by_track records = foldl group_step [] records"

text \<open>
  The best record of every player on one track (\<^verbatim>\<open>player_best\<close>).
\<close>

definition best_step ::
  "(string \<times> track_entry) list \<Rightarrow> track_entry \<Rightarrow> (string \<times> track_entry) list" where
  "best_step player_best record =
     (case map_of player_best (e_login record) of
        None \<Rightarrow> AList.update (e_login record) record player_best
      | Some best \<Rightarrow>
          if e_rank record < e_rank best
          then AList.update (e_login record) record player_best
          else player_best)"

definition player_best_of :: "track_entry list \<Rightarrow> (string \<times> track_entry) list" where
  "player_best_of records_list = foldl best_step [] records_list"

text \<open>
  The index pairs \<^verbatim>\<open>i < j\<close> of the two nested \<^verbatim>\<open>for\<close> loops, in their order.
\<close>

fun pairs :: "'a list \<Rightarrow> ('a \<times> 'a) list" where
  "pairs [] = []"
| "pairs (x # xs) = map (Pair x) xs @ pairs xs"

text \<open>
  \<^verbatim>\<open>tuple(sorted([p1_login, p2_login]))\<close>.
\<close>

definition rivalry_key :: "string \<Rightarrow> string \<Rightarrow> string \<times> string" where
  "rivalry_key p1_login p2_login =
     (if p2_login < p1_login then (p2_login, p1_login) else (p1_login, p2_login))"

text \<open>
  \<^verbatim>\<open>rivalry_data\<close> is a \<^verbatim>\<open>defaultdict\<close> of \<^verbatim>\<open>defaultdict\<close>s: rivalry key, then track,
  then login, then wins. \<^verbatim>\<open>rivalry_data[key][track][login] += 1\<close> creates the entries
  it does not find, each at the end of its dict.
\<close>

type_synonym rivalry_table = "((string \<times> string) \<times> (string \<times> (string \<times> nat) list) list) list"

definition add_win :: "rivalry_table \<Rightarrow> string \<times> string \<Rightarrow> string \<Rightarrow> string \<Rightarrow> rivalry_table" where
  "add_win rivalry_data key track login =
     (let track_data = (case map_of rivalry_data key of None \<Rightarrow> [] | Some d \<Rightarrow> d);
          track_wins = (case map_of track_data track of None \<Rightarrow> [] | Some w \<Rightarrow> w);
          wins = (case map_of track_wins login of None \<Rightarrow> 0 | Some n \<Rightarrow> n)
      in AList.update key
           (AList.update track (AList.update login (wins + 1) track_wins) track_data)
           rivalry_data)"

text \<open>
  The login that the comparison leaves out (\<^verbatim>\<open>if login != 'yogeshdeshwari'\<close>).
\<close>

definition excluded_login :: string where
  "excluded_login = ''yogeshdeshwari''"

text \<open>
  The comparison of one pair. \<^verbatim>\<open>players\<close> lists the keys of \<^verbatim>\<open>player_best\<close> and the
  loop reads \<^verbatim>\<open>player_best[p1_login]\<close>, the value of that key: the model walks the items.
  Equal ranks change nothing.
\<close>

definition pair_step ::
  "string \<Rightarrow> rivalry_table \<Rightarrow> (string \<times> track_entry) \<times> (string \<times> track_entry) \<Rightarrow> rivalry_table" where
  "pair_step track rivalry_data pr =
     (case pr of ((p1_login, p1_record), (p2_login, p2_record)) \<Rightarrow>
        let key = rivalry_key p1_login p2_login in
        if e_rank p1_record < e_rank p2_record then add_win rivalry_data key track p1_login
        else if e_rank p2_record < e_rank p1_record then add_win rivalry_data key track p2_login
        else rivalry_data)"

text \<open>
  One round of \<^verbatim>\<open>for track, records_list in track_records.items()\<close>.
\<close>

definition track_step :: "rivalry_table \<Rightarrow> string \<times> track_entry list \<Rightarrow> rivalry_table" where
  "track_step rivalry_data tr =
     (case tr of (track, records_list) \<Rightarrow>
        if 2 \<le> length records_list then
          (let player_best = player_best_of records_list;
               players = filter (\<lambda>(login, best). login \<noteq> excluded_login) player_best
           in foldl (pair_step track) rivalry_data (pairs players))
        else rivalry_data)"

definition head_to_head :: "(string \<times> track_entry list) list \<Rightarrow> rivalry_table" where
  "head_to_head track_records = foldl track_step [] track_records"

text \<open>
  The decimal digits of a count, for the f-string of \<^verbatim>\<open>score\<close>.
\<close>

fun str_of_nat :: "nat \<Rightarrow> string" where
  "str_of_nat n =
     (if n < 10 then [''0123456789'' ! n]
      else str_of_nat (n div 10) @ [''0123456789'' ! (n mod 10)])"

text \<open>
  An element of the result of \<^verbatim>\<open>detect_rivalries\<close>.
\<close>

record rivalry =
  player1 :: string
  player2 :: string
  shared_tracks :: nat
  p1_wins :: nat
  p2_wins :: nat
  leader :: string
  score :: string
  tracks :: "string list"

definition total_wins :: "string \<Rightarrow> (string \<times> (string \<times> nat) list) list \<Rightarrow> nat" where
  "total_wins login track_data =
     sum_list (map (\<lambda>(track, track_wins).
        case map_of track_wins login of None \<Rightarrow> 0 | Some n \<Rightarrow> n) track_data)"

text \<open>
  One round of the final loop: the entry appended to \<^verbatim>\<open>rivalries\<close>, or \<open>None\<close> when
  \<^verbatim>\<open>shared_tracks >= 3\<close> fails. \<^verbatim>\<open>shared_tracks\<close> is \<^verbatim>\<open>len(track_data)\<close>.
\<close>

definition rivalry_entry ::
  "(string \<times> string) list \<Rightarrow>
   (string \<times> string) \<times> (string \<times> (string \<times> nat) list) list \<Rightarrow> rivalry option" where
  "rivalry_entry login_to_nick item =
     (case item of ((login1, login2), track_data) \<Rightarrow>
        let total_wins_login1 = total_wins login1 track_data;
            total_wins_login2 = total_wins login2 track_data;
            n_shared = length track_data
        in
        if 3 \<le> n_shared then
          (let nick1 = nick_of login_to_nick login1;
               nick2 = nick_of login_to_nick login2;
               (leader_name, loser_name, leader_label, player1_wins, player2_wins) =
                 (if total_wins_login2 < total_wins_login1
                  then (nick1, nick2, nick1, total_wins_login1, total_wins_login2)
                  else if total_wins_login1 < total_wins_login2
                  then (nick2, nick1, nick2, total_wins_login2, total_wins_login1)
                  else if nick1 < nick2
                  then (nick1, nick2, ''Tied'', total_wins_login1, total_wins_login2)
                  else (nick2, nick1, ''Tied'', total_wins_login2, total_wins_login1))
           in Some \<lparr>player1 = leader_name, player2 = loser_name, shared_tracks = n_shared,
                     p1_wins = player1_wins, p2_wins = player2_wins, leader = leader_label,
                     score = str_of_nat player1_wins @ ''-'' @ str_of_nat player2_wins,
                     tracks = map fst track_data\<rparr>)
        else None)"

text \<open>
  \<^verbatim>\<open>WeeklyStatsGenerator.detect_rivalries\<close>.
\<close>

definition detect_rivalries :: "generator \<Rightarrow> row list \<Rightarrow> rivalry list \<times> generator" where
  "detect_rivalries self records =
     (let (login_to_nick, self') = get_all_latest_nicknames self records;
          track_records = group_by_track records;
          rivalry_data = head_to_head track_records;
          rivalries = List.map_filter (rivalry_entry login_to_nick) rivalry_data
      in (py_sort_reverse shared_tracks rivalries, self'))"

section \<open>Weekend warrior\<close>

text \<open>
  \<^verbatim>\<open>analyze_time_masters\<close> parses \<^verbatim>\<open>date\<close> with \<^verbatim>\<open>datetime.strptime\<close> and compares it
  with \<^verbatim>\<open>get_weekly_date_range()\<close>, which reads the system clock. Both are a parameter
  \<open>clock\<close> of the model: \<open>clock date\<close> is \<open>None\<close> when parsing raises, and otherwise
  tells whether the date lies in the week and which weekday it is (Monday is 0).
\<close>

record stamp =
  st_in_week :: bool
  st_weekday :: nat

text \<open>
  What one round of the loop does to \<^verbatim>\<open>time_stats['weekend_warrior']\<close>, a
  \<^verbatim>\<open>defaultdict(int)\<close>.
\<close>

definition weekend_step ::
  "(string \<Rightarrow> stamp option) \<Rightarrow> (string \<times> nat) list \<Rightarrow> row \<Rightarrow> (string \<times> nat) list" where
  "weekend_step clock weekend_warrior record =
     (case clock (r_date record) of
        None \<Rightarrow> weekend_warrior
      | Some record_datetime \<Rightarrow>
          if \<not> st_in_week record_datetime then weekend_warrior
          else if st_weekday record_datetime \<in> {5, 6} then
            AList.update (r_login record)
              ((case map_of weekend_warrior (r_login record) of None \<Rightarrow> 0 | Some n \<Rightarrow> n) + 1)
              weekend_warrior
          else weekend_warrior)"

definition weekend_counts :: "(string \<Rightarrow> stamp option) \<Rightarrow> row list \<Rightarrow> (string \<times> nat) list" where
  "weekend_counts clock records = foldl (weekend_step clock) [] records"

text \<open>
  The list \<^verbatim>\<open>weekend_totals\<close> of \<^verbatim>\<open>(login, weekend_count, percentage)\<close>.
\<close>

definition weekend_totals ::
  "(string \<Rightarrow> stamp option) \<Rightarrow> row list \<Rightarrow> (string \<times> nat \<times> rat) list" where
  "weekend_totals clock records =
     map (\<lambda>(login, weekend_count).
            let total_records = length (filter (\<lambda>r. r_login r = login) records);
                percentage = (if 0 < total_records
                              then of_nat weekend_count / of_nat total_records * 100 else 0)
            in (login, weekend_count, percentage))
         (weekend_counts clock records)"

text \<open>
  \<^verbatim>\<open>max(xs, key=key)\<close>: the first element whose key is largest; \<open>None\<close> on the empty
  list, which the source excludes with \<^verbatim>\<open>if time_stats['weekend_warrior']\<close>.
\<close>

fun py_max_loop :: "('a \<Rightarrow> 'k::linorder) \<Rightarrow> 'a \<Rightarrow> 'a list \<Rightarrow> 'a" where
  "py_max_loop key best [] = best"
| "py_max_loop key best (x # xs) = py_max_loop key (if key best < key x then x else best) xs"

definition py_max :: "('a \<Rightarrow> 'k::linorder) \<Rightarrow> 'a list \<Rightarrow> 'a option" where
  "py_max key xs = (case xs of [] \<Rightarrow> None | x # rest \<Rightarrow> Some (py_max_loop key x rest))"

text \<open>
  \<^verbatim>\<open>results['weekend_warrior']\<close> of \<^verbatim>\<open>analyze_time_masters\<close>, absent (\<open>None\<close>) when no
  record was counted.
\<close>

record weekend_result =
  ww_player :: string
  ww_count :: nat
  ww_percentage :: rat

definition weekend_warrior ::
  "generator \<Rightarrow> (string \<Rightarrow> stamp option) \<Rightarrow> row list \<Rightarrow> weekend_result option \<times> generator" where
  "weekend_warrior self clock records =
     (let (player_nicks, self') = get_all_latest_nicknames self records in
      (case py_max (\<lambda>x. fst (snd x)) (weekend_totals clock records) of
         None \<Rightarrow> None
       | Some best_weekend \<Rightarrow>
           Some \<lparr>ww_player = nick_of player_nicks (fst best_weekend),
                 ww_count = fst (snd best_weekend),
                 ww_percentage = snd (snd best_weekend)\<rparr>,
       self'))"

section \<open>Notions used in the statements\<close>

text \<open>
  The rivalry keys for which the final loop of \<^verbatim>\<open>detect_rivalries\<close> appends an entry:
  the pairs of logins that are reported.
\<close>

definition rivalry_pairs :: "row list \<Rightarrow> (string \<times> string) list" where
  "rivalry_pairs records =
     map fst (filter (\<lambda>(key, track_data). 3 \<le> length track_data)
                (head_to_head (group_by_track records)))"

text \<open>
  Two records whose ranks both convert and convert to different numbers.
\<close>

definition rank_differs :: "row \<Rightarrow> row \<Rightarrow> bool" where
  "rank_differs ra rb =
     (case (rivalry_rank (r_rank ra), rivalry_rank (r_rank rb)) of
        (Some na, Some nb) \<Rightarrow> na \<noteq> nb
      | _ \<Rightarrow> False)"

text \<open>
  The distinct tracks on which both players have a record and their ranks differ, and
  the distinct tracks on which both have a record at all.
\<close>

definition decided_tracks :: "row list \<Rightarrow> string \<Rightarrow> string \<Rightarrow> string list" where
  "decided_tracks records a b =
     remdups (map r_track (filter (\<lambda>ra. r_login ra = a \<and>
        (\<exists>rb\<in>set records. r_login rb = b \<and> r_track rb = r_track ra \<and> rank_differs ra rb))
        records))"

definition common_tracks :: "row list \<Rightarrow> string \<Rightarrow> string \<Rightarrow> string list" where
  "common_tracks records a b =
     remdups (map r_track (filter (\<lambda>ra. r_login ra = a \<and>
        (\<exists>rb\<in>set records. r_login rb = b \<and> r_track rb = r_track ra))
        records))"

text \<open>
  A record that the weekend count takes: its date parses, lies in the week and is a
  Saturday or a Sunday. \<open>weekend_of\<close> counts such records of one login.
\<close>

definition is_weekend :: "(string \<Rightarrow> stamp option) \<Rightarrow> row \<Rightarrow> bool" where
  "is_weekend clock record =
     (case clock (r_date record) of
        None \<Rightarrow> False
      | Some s \<Rightarrow> st_in_week s \<and> st_weekday s \<in> {5, 6})"

definition weekend_of :: "(string \<Rightarrow> stamp option) \<Rightarrow> row list \<Rightarrow> string \<Rightarrow> nat" where
  "weekend_of clock records login =
     length (filter (\<lambda>r. r_login r = login \<and> is_weekend clock r) records)"

section \<open>Sample data\<close>

text \<open>
  Concrete records on which the statements below are evaluated.
\<close>

definition sample_row :: "string \<Rightarrow> string \<Rightarrow> string \<Rightarrow> string \<Rightarrow> string \<Rightarrow> row" where
  "sample_row login nick track rank date =
     \<lparr>r_login = login, r_nick = nick, r_track = track, r_time = ''0:42.10'', r_rank = rank,
      r_date = date, r_envir = ''Stadium'', r_mode = ''TA'', r_server = ''''\<rparr>"

definition scenario :: "row list" where
  "scenario =
    [sample_row ''alice'' ''Alice'' ''A'' ''1'' ''2025-08-03'',
     sample_row ''bob'' ''Bob'' ''A'' ''2'' ''2025-08-03'',
     sample_row ''alice'' ''Alice'' ''B'' ''3'' ''2025-08-03'',
     sample_row ''bob'' ''Bob'' ''B'' ''7'' ''2025-08-03'',
     sample_row ''bob'' ''Bob'' ''C'' ''1'' ''2025-08-03'',
     sample_row ''alice'' ''Alice'' ''C'' ''4'' ''2025-08-04'']"

definition scenario_with_rank :: "string \<Rightarrow> row list" where
  "scenario_with_rank rank =
    [sample_row ''alice'' ''Alice'' ''A'' ''1'' ''2025-08-03'',
     sample_row ''bob'' ''Bob'' ''A'' ''2'' ''2025-08-03'',
     sample_row ''alice'' ''Alice'' ''B'' ''3'' ''2025-08-03'',
     sample_row ''bob'' ''Bob'' ''B'' ''7'' ''2025-08-03'',
     sample_row ''bob'' ''Bob'' ''C'' ''1'' ''2025-08-03'',
     sample_row ''alice'' ''Alice'' ''C'' rank ''2025-08-04'']"

definition scenario_fourth_tied :: "row list" where
  "scenario_fourth_tied =
     scenario @
     [sample_row ''alice'' ''Alice'' ''D'' ''5'' ''2025-08-05'',
      sample_row ''bob'' ''Bob'' ''D'' ''5'' ''2025-08-05'']"

text \<open>
  2 August 2025 is a Saturday, 4 August 2025 a Monday.
\<close>

definition sample_clock :: "string \<Rightarrow> stamp option" where
  "sample_clock =
     map_of [(''2025-08-02 10:00:00'', \<lparr>st_in_week = True, st_weekday = 5\<rparr>),
             (''2025-08-04 10:00:00'', \<lparr>st_in_week = True, st_weekday = 0\<rparr>)]"

definition weekend_sample :: "row list" where
  "weekend_sample =
    [sample_row ''alice'' ''Alice'' ''A'' ''1'' ''2025-08-02 10:00:00'',
     sample_row ''alice'' ''Alice'' ''B'' ''2'' ''2025-08-02 10:00:00'',
     sample_row ''alice'' ''Alice'' ''C'' ''3'' ''2025-08-04 10:00:00'',
     sample_row ''alice'' ''Alice'' ''D'' ''4'' ''2025-08-04 10:00:00'',
     sample_row ''bob'' ''Bob'' ''A'' ''5'' ''2025-08-02 10:00:00'']"

text \<open>
  A stand-in for \<^verbatim>\<open>float\<close> that reads whole numbers only; \<open>None\<close> plays infinity.
\<close>

definition sample_float :: "string \<Rightarrow> rat option option" where
  "sample_float s = map_option (\<lambda>n. Some (of_int n)) (py_int s)"

definition sample_minsec :: "rat option \<Rightarrow> rat option \<Rightarrow> rat option" where
  "sample_minsec minutes seconds =
     (case (minutes, seconds) of (Some m, Some s) \<Rightarrow> Some (m * 60 + s) | _ \<Rightarrow> None)"

section \<open>Auxiliary notions of the proofs\<close>

text \<open>
  Whether a round of the deduplication loop stores its record, and the invariant of
  that loop after the records \<open>rs\<close>.
\<close>

definition takes :: "('r \<Rightarrow> string \<times> string) \<Rightarrow> ('r \<Rightarrow> int) \<Rightarrow> ((string \<times> string) \<times> 'r) list \<Rightarrow> 'r \<Rightarrow> bool" where
  "takes key_of rank_of tr x \<longleftrightarrow>
     fst (key_of x) \<noteq> [] \<and> snd (key_of x) \<noteq> [] \<and>
     (case map_of tr (key_of x) of None \<Rightarrow> True | Some e \<Rightarrow> rank_of x < rank_of e)"

definition dedup_inv ::
  "('r \<Rightarrow> string \<times> string) \<Rightarrow> ('r \<Rightarrow> int) \<Rightarrow> 'r list \<Rightarrow> ((string \<times> string) \<times> 'r) list \<Rightarrow> bool" where
  "dedup_inv key_of rank_of rs tr \<longleftrightarrow>
     distinct (map fst tr) \<and>
     (\<forall>k v. map_of tr k = Some v \<longrightarrow>
        key_of v = k \<and> fst k \<noteq> [] \<and> snd k \<noteq> [] \<and>
        find (\<lambda>r. key_of r = k \<and> rank_of r = rank_of v) rs = Some v \<and>
        (\<forall>r\<in>set rs. key_of r = k \<longrightarrow> rank_of v \<le> rank_of r)) \<and>
     (\<forall>r\<in>set rs. fst (key_of r) \<noteq> [] \<and> snd (key_of r) \<noteq> [] \<longrightarrow> map_of tr (key_of r) \<noteq> None)"

text \<open>
  The tracks stored under a rivalry key, and the shape of a rivalry table.
\<close>

definition tracks_of :: "rivalry_table \<Rightarrow> string \<times> string \<Rightarrow> string set" where
  "tracks_of rd k = (case map_of rd k of None \<Rightarrow> {} | Some td \<Rightarrow> fst ` set td)"

definition wf_table :: "rivalry_table \<Rightarrow> bool" where
  "wf_table rd \<longleftrightarrow> distinct (map fst rd) \<and> (\<forall>k td. map_of rd k = Some td \<longrightarrow> distinct (map fst td))"

definition differ :: "(string \<times> track_entry) \<times> (string \<times> track_entry) \<Rightarrow> bool" where
  "differ pr \<longleftrightarrow> e_rank (snd (fst pr)) \<noteq> e_rank (snd (snd pr))"

definition pair_key :: "(string \<times> track_entry) \<times> (string \<times> track_entry) \<Rightarrow> string \<times> string" where
  "pair_key pr = rivalry_key (fst (fst pr)) (fst (snd pr))"

definition players_of :: "track_entry list \<Rightarrow> (string \<times> track_entry) list" where
  "players_of es = filter (\<lambda>(login, best). login \<noteq> excluded_login) (player_best_of es)"

definition decides :: "track_entry list \<Rightarrow> string \<times> string \<Rightarrow> bool" where
  "decides es k \<longleftrightarrow> 2 \<le> length es \<and> (\<exists>pr\<in>set (pairs (players_of es)). k = pair_key pr \<and> differ pr)"

text \<open>
  The entry that the grouping loop builds from a record, and all entries of a track.
\<close>

definition entry_of :: "row \<Rightarrow> track_entry option" where
  "entry_of record =
     map_option (\<lambda>rank_int. \<lparr>e_login = r_login record, e_nick = r_nick record,
                              e_rank = rank_int, e_time = r_time record\<rparr>)
       (rivalry_rank (r_rank record))"

definition entries_on :: "row list \<Rightarrow> string \<Rightarrow> track_entry list" where
  "entries_on records t = List.map_filter entry_of (filter (\<lambda>r. r_track r = t) records)"

section \<open>Deduplication keeps the best record\<close>

lemma update_fresh: "k \<notin> fst ` set al \<Longrightarrow> AList.update k v al = al @ [(k, v)]"
  by (induction al) auto

lemma find_snoc:
  "find P (xs @ [x]) = (case find P xs of Some y \<Rightarrow> Some y | None \<Rightarrow> if P x then Some x else None)"
  by (induction xs) auto

lemma find_None_iff': "find P xs = None \<longleftrightarrow> (\<forall>x\<in>set xs. \<not> P x)"
  by (induction xs) auto

lemma dedup_step_eq:
  "dedup_step key_of rank_of tr x =
     (if takes key_of rank_of tr x then AList.update (key_of x) x tr else tr)"
  by (cases "key_of x") (auto simp: dedup_step_def takes_def Let_def split: option.splits)

lemma map_of_dedup_step:
  "map_of (dedup_step key_of rank_of tr x) =
     (if takes key_of rank_of tr x then (map_of tr)(key_of x \<mapsto> x) else map_of tr)"
  by (simp add: dedup_step_eq AList.update_conv')

lemma dedup_inv_step:
  assumes "dedup_inv key_of rank_of rs tr"
  shows "dedup_inv key_of rank_of (rs @ [x]) (dedup_step key_of rank_of tr x)"
proof -
  let ?tr' = "dedup_step key_of rank_of tr x"
  let ?T = "takes key_of rank_of tr x"
  from assms have d: "distinct (map fst tr)"
    and v: "\<And>k v. map_of tr k = Some v \<Longrightarrow>
        key_of v = k \<and> fst k \<noteq> [] \<and> snd k \<noteq> [] \<and>
        find (\<lambda>r. key_of r = k \<and> rank_of r = rank_of v) rs = Some v \<and>
        (\<forall>r\<in>set rs. key_of r = k \<longrightarrow> rank_of v \<le> rank_of r)"
    and c: "\<And>r. r \<in> set rs \<Longrightarrow> fst (key_of r) \<noteq> [] \<Longrightarrow> snd (key_of r) \<noteq> [] \<Longrightarrow> map_of tr (key_of r) \<noteq> None"
    unfolding dedup_inv_def by blast+
  have 1: "distinct (map fst ?tr')"
    using d by (simp add: dedup_step_eq AList.distinct_update)
  have 2: "key_of w = k \<and> fst k \<noteq> [] \<and> snd k \<noteq> [] \<and>
        find (\<lambda>r. key_of r = k \<and> rank_of r = rank_of w) (rs @ [x]) = Some w \<and>
        (\<forall>r\<in>set (rs @ [x]). key_of r = k \<longrightarrow> rank_of w \<le> rank_of r)"
    if m: "map_of ?tr' k = Some w" for k w
  proof (cases "?T \<and> k = key_of x")
    case True
    then have w: "w = x" using m by (simp add: map_of_dedup_step)
    have lt: "rank_of x < rank_of r" if "r \<in> set rs" "key_of r = k" for r
    proof (cases "map_of tr k")
      case None
      then show ?thesis using c[OF that(1)] that(2) True by (simp add: takes_def)
    next
      case (Some e)
      then have "rank_of x < rank_of e" using True by (simp add: takes_def)
      moreover have "rank_of e \<le> rank_of r" using v[OF Some] that by blast
      ultimately show ?thesis by simp
    qed
    then have "find (\<lambda>r. key_of r = k \<and> rank_of r = rank_of x) rs = None"
      by (fastforce simp: find_None_iff')
    then have "find (\<lambda>r. key_of r = k \<and> rank_of r = rank_of x) (rs @ [x]) = Some x"
      using True by (simp add: find_snoc)
    moreover have "\<forall>r\<in>set (rs @ [x]). key_of r = k \<longrightarrow> rank_of x \<le> rank_of r"
      using lt by fastforce
    ultimately show ?thesis using True w by (simp add: takes_def)
  next
    case False
    then have old: "map_of tr k = Some w"
      using m by (auto simp: map_of_dedup_step split: if_splits)
    note vw = v[OF old]
    have "find (\<lambda>r. key_of r = k \<and> rank_of r = rank_of w) (rs @ [x]) = Some w"
      using vw by (simp add: find_snoc)
    moreover have "rank_of w \<le> rank_of x" if "key_of x = k"
      using False that old vw by (auto simp: takes_def)
    ultimately show ?thesis using vw by auto
  qed
  have 3: "map_of ?tr' (key_of r) \<noteq> None"
    if "r \<in> set (rs @ [x])" "fst (key_of r) \<noteq> []" "snd (key_of r) \<noteq> []" for r
  proof (cases "r \<in> set rs")
    case True
    then show ?thesis using c[OF True that(2,3)] by (simp add: map_of_dedup_step)
  next
    case False
    then have "r = x" using that(1) by simp
    then show ?thesis using that(2,3)
      by (auto simp: map_of_dedup_step takes_def split: option.splits)
  qed
  show ?thesis unfolding dedup_inv_def using 1 2 3 by blast
qed

lemma dedup_inv_loop: "dedup_inv key_of rank_of rs (dedup_loop key_of rank_of rs)"
proof (induction rs rule: rev_induct)
  case Nil
  show ?case by (simp add: dedup_loop_def dedup_inv_def)
next
  case (snoc x xs)
  then show ?case using dedup_inv_step[of key_of rank_of xs _ x]
    by (simp add: dedup_loop_def)
qed

lemma dedup_loop_map_of:
  "(k, v) \<in> set (dedup_loop key_of rank_of rs) \<Longrightarrow> map_of (dedup_loop key_of rank_of rs) k = Some v"
  using dedup_inv_loop[of key_of rank_of rs] by (simp add: dedup_inv_def)

lemma dedup_loop_key:
  "(k, v) \<in> set (dedup_loop key_of rank_of rs) \<Longrightarrow> key_of v = k"
  using dedup_inv_loop[of key_of rank_of rs] dedup_loop_map_of[of k v key_of rank_of rs]
  unfolding dedup_inv_def by blast

lemma dedup_loop_keys:
  "map key_of (map snd (dedup_loop key_of rank_of rs)) = map fst (dedup_loop key_of rank_of rs)"
  using dedup_loop_key[of _ _ key_of rank_of rs] by (auto simp: map_eq_conv)

lemma dedup_loop_distinct:
  "distinct (map key_of (map snd (dedup_loop key_of rank_of rs)))"
  using dedup_inv_loop[of key_of rank_of rs] unfolding dedup_loop_keys by (simp add: dedup_inv_def)

lemma dedup_loop_kept:
  assumes "kept \<in> set (map snd (dedup_loop key_of rank_of rs))"
  shows "fst (key_of kept) \<noteq> [] \<and> snd (key_of kept) \<noteq> [] \<and>
          find (\<lambda>r. key_of r = key_of kept \<and> rank_of r = rank_of kept) rs = Some kept \<and>
          (\<forall>r\<in>set rs. key_of r = key_of kept \<longrightarrow> rank_of kept \<le> rank_of r)"
proof -
  from assms obtain k where k: "(k, kept) \<in> set (dedup_loop key_of rank_of rs)" by auto
  have "key_of kept = k" by (rule dedup_loop_key[OF k])
  then show ?thesis
    using dedup_inv_loop[of key_of rank_of rs] dedup_loop_map_of[OF k]
    unfolding dedup_inv_def by blast
qed

lemma dedup_loop_covers:
  assumes "r \<in> set rs" "fst (key_of r) \<noteq> []" "snd (key_of r) \<noteq> []"
  shows "key_of r \<in> key_of ` set (map snd (dedup_loop key_of rank_of rs))"
proof -
  have "map_of (dedup_loop key_of rank_of rs) (key_of r) \<noteq> None"
    using dedup_inv_loop[of key_of rank_of rs] assms unfolding dedup_inv_def by blast
  then have "key_of r \<in> set (map fst (dedup_loop key_of rank_of rs))"
    by (metis map_of_eq_None_iff set_map)
  then show ?thesis using dedup_loop_keys[of key_of rank_of rs] by (metis set_map)
qed

lemma dedup_loop_fixed:
  assumes "distinct (map key_of ys)"
    and "\<forall>y\<in>set ys. fst (key_of y) \<noteq> [] \<and> snd (key_of y) \<noteq> []"
  shows "dedup_loop key_of rank_of ys = map (\<lambda>y. (key_of y, y)) ys"
  using assms
proof (induction ys rule: rev_induct)
  case Nil
  show ?case by (simp add: dedup_loop_def)
next
  case (snoc y ys)
  let ?al = "map (\<lambda>y. (key_of y, y)) ys"
  have ih: "dedup_loop key_of rank_of ys = ?al" using snoc by simp
  have fresh: "key_of y \<notin> fst ` set ?al" using snoc.prems(1) by (auto simp: image_iff)
  then have none: "map_of ?al (key_of y) = None" by (simp add: map_of_eq_None_iff)
  have "takes key_of rank_of ?al y" using snoc.prems(2) none by (simp add: takes_def)
  then have "dedup_step key_of rank_of ?al y = ?al @ [(key_of y, y)]"
    using fresh by (simp add: dedup_step_eq update_fresh)
  then show ?case using ih by (simp add: dedup_loop_def)
qed

lemma dedup_loop_idem:
  "map snd (dedup_loop key_of rank_of (map snd (dedup_loop key_of rank_of rs))) =
   map snd (dedup_loop key_of rank_of rs)"
proof -
  let ?out = "map snd (dedup_loop key_of rank_of rs)"
  have "distinct (map key_of ?out)" by (rule dedup_loop_distinct)
  moreover have "\<forall>y\<in>set ?out. fst (key_of y) \<noteq> [] \<and> snd (key_of y) \<noteq> []"
    using dedup_loop_kept[of _ key_of rank_of rs] by blast
  ultimately have "dedup_loop key_of rank_of ?out = map (\<lambda>y. (key_of y, y)) ?out"
    by (rule dedup_loop_fixed)
  then show ?thesis by (simp add: comp_def)
qed

lemma digits_value_all_digits: "list_all is_digit s \<Longrightarrow> \<exists>n. digits_value acc s = Some n"
  by (induction s arbitrary: acc) auto

lemma is_digit_not_space: "is_digit c \<Longrightarrow> \<not> is_space c"
  by (auto simp: is_digit_def is_space_def)

text \<open>
  A non-empty string of at most \<open>max_str_digits\<close> decimal digits converts; a longer
  one does not.
\<close>

lemma int_strip_digits:
  assumes "s \<noteq> []" and "list_all is_digit s"
  shows "int_strip s = s"
proof -
  obtain c cs where s: "s = c # cs" using assms(1) by (cases s) auto
  have 1: "dropWhile is_space s = s" using assms(2) s by (simp add: is_digit_not_space)
  have "rev s \<noteq> []" using s by simp
  moreover have "is_digit (hd (rev s))"
    using assms by (metis hd_rev last_in_set list_all_iff)
  ultimately have "dropWhile is_space (rev s) = rev s"
    by (cases "rev s") (auto simp: is_digit_not_space)
  then show ?thesis using 1 by (simp add: int_strip_def)
qed

lemma py_int_digits:
  assumes "s \<noteq> []" and "list_all is_digit s" and "length s \<le> max_str_digits"
  shows "\<exists>n. py_int s = Some n"
proof -
  obtain c cs where s: "s = c # cs" using assms(1) by (cases s) auto
  have c: "is_digit c" and all: "list_all is_digit (c # cs)" using assms(2) s by auto
  have ns: "c \<noteq> CHR ''+'' \<and> c \<noteq> CHR ''-''" using c by (auto simp: is_digit_def)
  have "filter is_digit (c # cs) = c # cs" using all by (simp add: list_all_iff)
  then have len: "length (filter is_digit (c # cs)) \<le> max_str_digits"
    using assms(3) s by simp
  obtain n where "digits_value 0 (c # cs) = Some n"
    using digits_value_all_digits[OF all] by blast
  then show ?thesis
    using int_strip_digits[OF assms(1,2)] s c ns len by (simp add: py_int_def)
qed

lemma py_int_too_long:
  assumes "list_all is_digit s" and "max_str_digits < length s"
  shows "py_int s = None"
proof -
  have ne: "s \<noteq> []" using assms(2) by auto
  then obtain c cs where s: "s = c # cs" by (cases s) auto
  have c: "is_digit c" using assms(1) s by simp
  have ns: "c \<noteq> CHR ''+'' \<and> c \<noteq> CHR ''-''" using c by (auto simp: is_digit_def)
  have "filter is_digit (c # cs) = c # cs" using assms(1) s by (simp add: list_all_iff)
  then have "\<not> length (filter is_digit (c # cs)) \<le> max_str_digits"
    using assms(2) s by simp
  then show ?thesis
    using int_strip_digits[OF ne assms(1)] s ns by (simp add: py_int_def)
qed



text \<open>
  Claim C10. Deduplicating twice gives the same list as deduplicating once, order
  included, for \<^verbatim>\<open>deduplicate_player_records\<close> and for \<^verbatim>\<open>deduplicate_records\<close>.
\<close>

theorem dedup_idempotent:
  "deduplicate_player_records (deduplicate_player_records R) = deduplicate_player_records R \<and>
   deduplicate_records (deduplicate_records W) = deduplicate_records W"
  unfolding deduplicate_player_records_def deduplicate_records_def
  by (simp add: dedup_loop_idem)

text \<open>
  Claim C7. The two implementations disagree on a rank such as \<^verbatim>\<open>+1\<close>:
  \<^verbatim>\<open>int('+1')\<close> is 1, so \<^verbatim>\<open>deduplicate_records\<close> compares it as 1, while
  \<^verbatim>\<open>'+1'.isdigit()\<close> is false, so \<^verbatim>\<open>deduplicate_player_records\<close> compares it as 999.
  On the same two records of one pair the first keeps the record ranked \<^verbatim>\<open>+1\<close> and the
  second the record ranked \<^verbatim>\<open>2\<close>.
\<close>

theorem dedup_implementations_differ:
  "deduplicate_records
     [sample_row ''alice'' ''Alice'' ''trackA'' ''+1'' ''2025-08-03'',
      sample_row ''alice'' ''Alice'' ''trackA'' ''2'' ''2025-08-04''] =
     [sample_row ''alice'' ''Alice'' ''trackA'' ''+1'' ''2025-08-03''] \<and>
   deduplicate_player_records
     [record_dict (sample_row ''alice'' ''Alice'' ''trackA'' ''+1'' ''2025-08-03''),
      record_dict (sample_row ''alice'' ''Alice'' ''trackA'' ''2'' ''2025-08-04'')] =
     [record_dict (sample_row ''alice'' ''Alice'' ''trackA'' ''2'' ''2025-08-04'')] \<and>
   rank_or_999_truthy ''+1'' = 1 \<and> rank_or_999_isdigit ''+1'' = 999"
  by code_simp

section \<open>The multiplier and the score\<close>

text \<open>
  Claim C3. The multiplier is the step function of the specification: one half for
  \<^verbatim>\<open>None\<close> and for a count of zero or less, then 0.1, 0.2, 0.4, 0.6, 0.8 and 1.0 on
  1, 2 to 4, 5 to 9, 10 to 14, 15 to 19 and 20 or more.
\<close>

theorem multiplier_steps:
  "get_competition_multiplier None = 1 / 2 \<and>
   (\<forall>n. n \<le> 0 \<longrightarrow> get_competition_multiplier (Some n) = 1 / 2) \<and>
   get_competition_multiplier (Some 1) = 1 / 10 \<and>
   (\<forall>n. 2 \<le> n \<and> n \<le> 4 \<longrightarrow> get_competition_multiplier (Some n) = 2 / 10) \<and>
   (\<forall>n. 5 \<le> n \<and> n \<le> 9 \<longrightarrow> get_competition_multiplier (Some n) = 4 / 10) \<and>
   (\<forall>n. 10 \<le> n \<and> n \<le> 14 \<longrightarrow> get_competition_multiplier (Some n) = 6 / 10) \<and>
   (\<forall>n. 15 \<le> n \<and> n \<le> 19 \<longrightarrow> get_competition_multiplier (Some n) = 8 / 10) \<and>
   (\<forall>n. 20 \<le> n \<longrightarrow> get_competition_multiplier (Some n) = 1)"
  by (simp add: get_competition_multiplier_def)

text \<open>
  The statement at the ends of the steps.
\<close>

theorem multiplier_steps_witness:
  "get_competition_multiplier None = 1 / 2 \<and>
   get_competition_multiplier (Some 0) = 1 / 2 \<and>
   get_competition_multiplier (Some 1) = 1 / 10 \<and>
   get_competition_multiplier (Some 4) = 2 / 10 \<and>
   get_competition_multiplier (Some 5) = 4 / 10 \<and>
   get_competition_multiplier (Some 14) = 6 / 10 \<and>
   get_competition_multiplier (Some 15) = 8 / 10 \<and>
   get_competition_multiplier (Some 20) = 1"
  using multiplier_steps by simp

text \<open>
  \<^verbatim>\<open>calculate_points\<close> raises exactly when some rank is accepted by \<^verbatim>\<open>isdigit()\<close> and
  rejected by \<^verbatim>\<open>int()\<close>. On all other inputs it returns, rounded to one decimal
  place, the sum of the base points times the multipliers, the base points being those
  of the table.
\<close>

lemma base_points_raises_iff:
  "base_points s = Inl ValueError \<longleftrightarrow> isdigit s \<and> py_int s = None"
  by (auto simp: base_points_def split: option.splits)

lemma base_points_table:
  "(isdigit s \<and> py_int s = Some 1 \<longrightarrow> base_points s = Inr 5) \<and>
   (isdigit s \<and> py_int s = Some n \<and> 2 \<le> n \<and> n \<le> 3 \<longrightarrow> base_points s = Inr 3) \<and>
   (isdigit s \<and> py_int s = Some n \<and> 4 \<le> n \<and> n \<le> 5 \<longrightarrow> base_points s = Inr 2) \<and>
   (isdigit s \<and> py_int s = Some n \<and> 6 \<le> n \<longrightarrow> base_points s = Inr 1) \<and>
   (s \<noteq> [] \<and> \<not> isdigit s \<longrightarrow> base_points s = Inr 1) \<and>
   base_points [] = Inr 0"
  by (simp add: base_points_def isdigit_def)

lemma points_loop_sum:
  assumes "\<forall>r\<in>set records. \<not> (isdigit (Rank r) \<and> py_int (Rank r) = None)"
  shows "points_loop cache acc records =
     Inr (acc + (\<Sum>r\<leftarrow>records. of_int (projr (base_points (Rank r))) *
                   get_competition_multiplier (cache (Challenge r))))"
  using assms
proof (induction records arbitrary: acc)
  case Nil
  show ?case by simp
next
  case (Cons r rs)
  have "base_points (Rank r) \<noteq> Inl ValueError"
    using Cons.prems by (simp add: base_points_raises_iff)
  then obtain b where b: "base_points (Rank r) = Inr b"
    by (cases "base_points (Rank r)") (auto intro: py_error.exhaust)
  have "\<forall>r\<in>set rs. \<not> (isdigit (Rank r) \<and> py_int (Rank r) = None)"
    using Cons.prems by simp
  from Cons.IH[OF this] show ?case by (simp add: b add.assoc)
qed

lemma points_loop_raises:
  assumes "r \<in> set records" and "isdigit (Rank r)" and "py_int (Rank r) = None"
  shows "points_loop cache acc records = Inl ValueError"
  using assms
proof (induction records arbitrary: acc)
  case Nil
  then show ?case by simp
next
  case (Cons x xs)
  show ?case
  proof (cases "base_points (Rank x)")
    case (Inl e)
    then show ?thesis by (cases e) simp
  next
    case (Inr b)
    then have "x \<noteq> r" using Cons.prems(2,3) base_points_raises_iff[of "Rank r"] by auto
    then have "r \<in> set xs" using Cons.prems(1) by simp
    from Cons.IH[OF this Cons.prems(2,3)] show ?thesis by (simp add: Inr)
  qed
qed

lemma calculate_points_raises_iff:
  "calculate_points records cache = Inl ValueError \<longleftrightarrow>
     (\<exists>r\<in>set records. isdigit (Rank r) \<and> py_int (Rank r) = None)"
proof
  assume l: "calculate_points records cache = Inl ValueError"
  show "\<exists>r\<in>set records. isdigit (Rank r) \<and> py_int (Rank r) = None"
  proof (rule ccontr)
    assume "\<not> (\<exists>r\<in>set records. isdigit (Rank r) \<and> py_int (Rank r) = None)"
    then have "\<forall>r\<in>set records. \<not> (isdigit (Rank r) \<and> py_int (Rank r) = None)" by blast
    from points_loop_sum[OF this, of cache 0] l show False
      by (simp add: calculate_points_def)
  qed
next
  assume "\<exists>r\<in>set records. isdigit (Rank r) \<and> py_int (Rank r) = None"
  then obtain r where "r \<in> set records" "isdigit (Rank r)" "py_int (Rank r) = None" by blast
  from points_loop_raises[OF this, of cache 0]
  show "calculate_points records cache = Inl ValueError"
    by (simp add: calculate_points_def)
qed

lemma calculate_points_sum:
  assumes "\<forall>r\<in>set records. \<not> (isdigit (Rank r) \<and> py_int (Rank r) = None)"
  shows "calculate_points records cache =
     Inr (round1 (\<Sum>r\<leftarrow>records. of_int (projr (base_points (Rank r))) *
                     get_competition_multiplier (cache (Challenge r))))"
  by (simp add: calculate_points_def points_loop_sum[OF assms])

lemma calculate_points_examples:
  "calculate_points
     [record_dict (sample_row ''alice'' ''Alice'' ''trackX'' ''1'' ''2025-08-03'')]
     [''trackX'' \<mapsto> 1] = Inr (1 / 2) \<and>
   calculate_points
     [record_dict (sample_row ''alice'' ''Alice'' ''A'' ''2'' ''2025-08-03''),
      record_dict (sample_row ''alice'' ''Alice'' ''B'' ''5'' ''2025-08-03''),
      record_dict (sample_row ''alice'' ''Alice'' ''C'' ''17'' ''2025-08-03''),
      record_dict (sample_row ''alice'' ''Alice'' ''D'' ''DNF'' ''2025-08-03''),
      record_dict (sample_row ''alice'' ''Alice'' ''E'' '''' ''2025-08-03'')]
     [''A'' \<mapsto> 3, ''B'' \<mapsto> 7, ''C'' \<mapsto> 12, ''E'' \<mapsto> 30] = Inr (25 / 10)"
  by code_simp

text \<open>
  Claim C2. The claim does not hold of the code: for a rank that is the superscript
  two, \<^verbatim>\<open>rank_str.isdigit()\<close> is true and \<^verbatim>\<open>int(rank_str)\<close> raises \<^verbatim>\<open>ValueError\<close>, which
  nothing catches, so \<^verbatim>\<open>calculate_points\<close> returns no total where the claim gives the
  record one point. \<^verbatim>\<open>deduplicate_player_records\<close> evaluates the same expression
  inside \<^verbatim>\<open>try\<close> and keeps such a record, so the scorer does receive it.
\<close>

theorem scorer_raises_on_superscript_rank:
  "isdigit [CHR 0xB2] \<and> py_int [CHR 0xB2] = None \<and>
   base_points [CHR 0xB2] = Inl ValueError \<and>
   calculate_points
     [record_dict (sample_row ''alice'' ''Alice'' ''trackA'' ''1'' ''2025-08-03''),
      record_dict (sample_row ''alice'' ''Alice'' ''trackB'' [CHR 0xB2] ''2025-08-03'')]
     [''trackA'' \<mapsto> 20] = Inl ValueError \<and>
   calculate_points
     [record_dict (sample_row ''alice'' ''Alice'' ''trackA'' ''1'' ''2025-08-03'')]
     [''trackA'' \<mapsto> 20] = Inr 5 \<and>
   rank_or_999_isdigit [CHR 0xB2] = 999 \<and>
   deduplicate_player_records
     [record_dict (sample_row ''alice'' ''Alice'' ''trackB'' [CHR 0xB2] ''2025-08-03'')] =
     [record_dict (sample_row ''alice'' ''Alice'' ''trackB'' [CHR 0xB2] ''2025-08-03'')]"
  by code_simp

section \<open>The leaderboard order is stable\<close>

lemma py_sort_reverse_sorted:
  "sorted_wrt (\<lambda>a b. key b \<le> key a) (py_sort_reverse key xs)"
proof -
  have "sorted (map key (sort_key key (rev xs)))" by simp
  then have "sorted_wrt (\<lambda>a b. key a \<le> key b) (sort_key key (rev xs))"
    by (simp add: sorted_map)
  then show ?thesis
    unfolding py_sort_reverse_def by (simp add: sorted_wrt_rev)
qed

lemma py_sort_reverse_stable:
  "filter (\<lambda>x. key x = k) (py_sort_reverse key xs) = filter (\<lambda>x. key x = k) xs"
  by (simp add: py_sort_reverse_def rev_filter[symmetric] sort_key_stable)

lemma py_sort_reverse_mset: "mset (py_sort_reverse key xs) = mset xs"
  by (simp add: py_sort_reverse_def)

text \<open>
  Claim C5. The sorted table is in descending order of the key
  (points, top1, top3, top5), compared lexicographically; it holds the same rows as the
  input; and the rows of any one key stand in the order the input had them. The result
  is a function of the input list, so sorting the same list again gives the same order.
\<close>

theorem ranker_stable:
  "sorted_wrt (\<lambda>a b. leaderboard_key b \<le> leaderboard_key a) (sort_player_table t) \<and>
   mset (sort_player_table t) = mset t \<and>
   (\<forall>k. filter (\<lambda>x. leaderboard_key x = k) (sort_player_table t) =
        filter (\<lambda>x. leaderboard_key x = k) t) \<and>
   (\<forall>a b. leaderboard_key b \<le> leaderboard_key a \<longleftrightarrow>
      pt_points b < pt_points a \<or> pt_points b = pt_points a \<and>
        (pt_top1 b < pt_top1 a \<or> pt_top1 b = pt_top1 a \<and>
          (pt_top3 b < pt_top3 a \<or> pt_top3 b = pt_top3 a \<and> pt_top5 b \<le> pt_top5 a)))"
proof -
  have "\<forall>a b. leaderboard_key b \<le> leaderboard_key a \<longleftrightarrow>
      pt_points b < pt_points a \<or> pt_points b = pt_points a \<and>
        (pt_top1 b < pt_top1 a \<or> pt_top1 b = pt_top1 a \<and>
          (pt_top3 b < pt_top3 a \<or> pt_top3 b = pt_top3 a \<and> pt_top5 b \<le> pt_top5 a))"
    by (auto simp: leaderboard_key_def less_eq_prod_def less_prod_def)
  then show ?thesis
    unfolding sort_player_table_def
    using py_sort_reverse_sorted[of leaderboard_key t] py_sort_reverse_stable[of leaderboard_key _ t]
      py_sort_reverse_mset[of leaderboard_key t]
    by blast
qed

section \<open>The nickname cache\<close>

text \<open>
  Claim C8, as the code has it. On a new generator \<^verbatim>\<open>get_all_latest_nicknames\<close>
  returns the table computed from its argument and stores it. A second call on the
  same generator returns the table of the first call's records, whatever records it
  is given. \<^verbatim>\<open>detect_rivalries\<close> names the players by the table that
  \<^verbatim>\<open>get_all_latest_nicknames\<close> returns in the generator's current state, and leaves
  the generator in the state that call leaves it in.
\<close>

theorem nickname_cache_first_call_wins:
  "get_all_latest_nicknames (new_generator path) R2 =
     (latest_nicknames R2,
      (new_generator path)\<lparr>latest_nicks_cache := Some (latest_nicknames R2)\<rparr>) \<and>
   get_all_latest_nicknames (snd (get_all_latest_nicknames (new_generator path) R1)) R2 =
     (latest_nicknames R1,
      (new_generator path)\<lparr>latest_nicks_cache := Some (latest_nicknames R1)\<rparr>) \<and>
   fst (detect_rivalries self R2) =
     py_sort_reverse shared_tracks
       (List.map_filter (rivalry_entry (fst (get_all_latest_nicknames self R2)))
          (head_to_head (group_by_track R2))) \<and>
   snd (detect_rivalries self R2) = snd (get_all_latest_nicknames self R2)"
proof -
  have 1: "get_all_latest_nicknames (new_generator path) R2 =
     (latest_nicknames R2,
      (new_generator path)\<lparr>latest_nicks_cache := Some (latest_nicknames R2)\<rparr>)"
    by (simp add: get_all_latest_nicknames_def new_generator_def Let_def)
  have 2: "get_all_latest_nicknames (snd (get_all_latest_nicknames (new_generator path) R1)) R2 =
     (latest_nicknames R1,
      (new_generator path)\<lparr>latest_nicks_cache := Some (latest_nicknames R1)\<rparr>)"
    by (simp add: get_all_latest_nicknames_def new_generator_def Let_def)
  obtain nicks self' where g: "get_all_latest_nicknames self R2 = (nicks, self')"
    by (cases "get_all_latest_nicknames self R2")
  have 3: "fst (detect_rivalries self R2) =
     py_sort_reverse shared_tracks
       (List.map_filter (rivalry_entry (fst (get_all_latest_nicknames self R2)))
          (head_to_head (group_by_track R2)))"
    by (simp add: detect_rivalries_def Let_def g)
  have 4: "snd (detect_rivalries self R2) = snd (get_all_latest_nicknames self R2)"
    by (simp add: detect_rivalries_def Let_def g)
  show ?thesis by (intro conjI 1 2 3 4)
qed

text \<open>
  The claim as stated fails: after a call with a record that names alice \<^verbatim>\<open>Alice\<close>, a
  call with a later record that names her \<^verbatim>\<open>Al1ce\<close> still answers \<^verbatim>\<open>Alice\<close>, where a
  new generator answers \<^verbatim>\<open>Al1ce\<close>. Likewise \<^verbatim>\<open>detect_rivalries\<close> on the scenario
  reports \<^verbatim>\<open>Ally\<close> against \<^verbatim>\<open>bob\<close> after a call that saw alice as \<^verbatim>\<open>Ally\<close>, and
  \<^verbatim>\<open>Alice\<close> against \<^verbatim>\<open>Bob\<close> on a new generator.
\<close>

theorem nickname_cache_counterexample:
  "fst (get_all_latest_nicknames
         (snd (get_all_latest_nicknames (new_generator ''db'')
                 [sample_row ''alice'' ''Alice'' ''trackA'' ''1'' ''2025-08-03'']))
         [sample_row ''alice'' ''Al1ce'' ''trackB'' ''2'' ''2025-08-05'']) = [(''alice'', ''Alice'')] \<and>
   fst (get_all_latest_nicknames (new_generator ''db'')
         [sample_row ''alice'' ''Al1ce'' ''trackB'' ''2'' ''2025-08-05'']) = [(''alice'', ''Al1ce'')] \<and>
   map (\<lambda>r. (player1 r, player2 r))
     (fst (detect_rivalries
            (snd (get_all_latest_nicknames (new_generator ''db'')
                    [sample_row ''alice'' ''Ally'' ''Z'' ''1'' ''2025-08-01'']))
            scenario)) = [(''Ally'', ''bob'')] \<and>
   map (\<lambda>r. (player1 r, player2 r))
     (fst (detect_rivalries (new_generator ''db'') scenario)) = [(''Alice'', ''Bob'')]"
  by code_simp

section \<open>Which pairs are reported as rivalries\<close>

lemma add_win_tracks:
  "tracks_of (add_win rd key t w) k =
     (if k = key then insert t (tracks_of rd key) else tracks_of rd k)"
  by (auto simp: add_win_def tracks_of_def Let_def AList.update_conv' AList.dom_update
      split: option.splits)

lemma add_win_wf: "wf_table rd \<Longrightarrow> wf_table (add_win rd key t w)"
  unfolding wf_table_def add_win_def Let_def
  by (auto simp: AList.update_conv' AList.distinct_update split: option.splits if_splits)

lemma pair_step_tracks:
  "tracks_of (pair_step t rd pr) k =
     (if k = pair_key pr \<and> differ pr then insert t (tracks_of rd k) else tracks_of rd k)"
proof -
  obtain l1 r1 l2 r2 where pr: "pr = ((l1, r1), (l2, r2))" by (cases pr) auto
  show ?thesis
  proof (cases "e_rank r1 < e_rank r2")
    case True
    then show ?thesis by (simp add: pr pair_step_def add_win_tracks differ_def pair_key_def)
  next
    case False
    show ?thesis
    proof (cases "e_rank r2 < e_rank r1")
      case True
      then show ?thesis using False
        by (simp add: pr pair_step_def add_win_tracks differ_def pair_key_def)
    next
      case nlt: False
      then have "e_rank r1 = e_rank r2" using False by simp
      then show ?thesis by (simp add: pr pair_step_def differ_def pair_key_def)
    qed
  qed
qed

lemma pair_step_wf: "wf_table rd \<Longrightarrow> wf_table (pair_step t rd pr)"
  by (cases pr) (auto simp: pair_step_def Let_def add_win_wf)

lemma pairs_fold_tracks:
  "tracks_of (foldl (pair_step t) rd ps) k =
     tracks_of rd k \<union> (if \<exists>pr\<in>set ps. k = pair_key pr \<and> differ pr then {t} else {})"
  by (induction ps arbitrary: rd) (auto simp: pair_step_tracks)

lemma pairs_fold_wf: "wf_table rd \<Longrightarrow> wf_table (foldl (pair_step t) rd ps)"
  by (induction ps arbitrary: rd) (auto simp: pair_step_wf)

lemma track_step_tracks:
  "tracks_of (track_step rd (t, es)) k = tracks_of rd k \<union> (if decides es k then {t} else {})"
  by (auto simp: track_step_def Let_def pairs_fold_tracks decides_def players_of_def)

lemma track_step_wf: "wf_table rd \<Longrightarrow> wf_table (track_step rd tr)"
  by (cases tr) (simp add: track_step_def Let_def pairs_fold_wf)

lemma tracks_fold_tracks:
  "tracks_of (foldl track_step rd G) k =
     tracks_of rd k \<union> {t. \<exists>es. (t, es) \<in> set G \<and> decides es k}"
proof (induction G arbitrary: rd)
  case Nil
  show ?case by simp
next
  case (Cons g G)
  obtain t es where g: "g = (t, es)" by (cases g)
  show ?case unfolding g by (auto simp: Cons.IH track_step_tracks)
qed

lemma tracks_fold_wf: "wf_table rd \<Longrightarrow> wf_table (foldl track_step rd G)"
  by (induction G arbitrary: rd) (auto simp: track_step_wf)

lemma head_to_head_tracks:
  "tracks_of (head_to_head G) k = {t. \<exists>es. (t, es) \<in> set G \<and> decides es k}"
  unfolding head_to_head_def tracks_fold_tracks by (simp add: tracks_of_def)

lemma head_to_head_wf: "wf_table (head_to_head G)"
  unfolding head_to_head_def by (rule tracks_fold_wf) (simp add: wf_table_def)

lemma rivalry_pairs_card:
  "k \<in> set (rivalry_pairs records) \<longleftrightarrow> 3 \<le> card (tracks_of (head_to_head (group_by_track records)) k)"
proof -
  let ?H = "head_to_head (group_by_track records)"
  have wf: "wf_table ?H" by (rule head_to_head_wf)
  then have d: "distinct (map fst ?H)" by (simp add: wf_table_def)
  have "k \<in> set (rivalry_pairs records) \<longleftrightarrow> (\<exists>td. (k, td) \<in> set ?H \<and> 3 \<le> length td)"
    by (force simp: rivalry_pairs_def)
  also have "\<dots> \<longleftrightarrow> (\<exists>td. map_of ?H k = Some td \<and> 3 \<le> length td)"
    using d by simp
  also have "\<dots> \<longleftrightarrow> 3 \<le> card (tracks_of ?H k)"
  proof (cases "map_of ?H k")
    case None
    then show ?thesis by (simp add: tracks_of_def)
  next
    case (Some td)
    then have "distinct (map fst td)" using wf unfolding wf_table_def by blast
    then have "card (fst ` set td) = length td"
      using distinct_card[of "map fst td"] by simp
    then show ?thesis using Some by (simp add: tracks_of_def)
  qed
  finally show ?thesis .
qed

lemma group_step_eq:
  "group_step G r =
     (case entry_of r of
        None \<Rightarrow> G
      | Some e \<Rightarrow> AList.update (r_track r)
                   ((case map_of G (r_track r) of None \<Rightarrow> [] | Some l \<Rightarrow> l) @ [e]) G)"
  by (simp add: group_step_def entry_of_def split: option.splits)

lemma entries_on_snoc:
  "entries_on (rs @ [r]) t =
     entries_on rs t @ (if r_track r = t then (case entry_of r of None \<Rightarrow> [] | Some e \<Rightarrow> [e]) else [])"
  by (simp add: entries_on_def List.map_filter_def split: option.splits)

lemma group_by_track_inv:
  "distinct (map fst (group_by_track rs)) \<and>
   (\<forall>t. map_of (group_by_track rs) t =
        (if entries_on rs t = [] then None else Some (entries_on rs t)))"
proof (induction rs rule: rev_induct)
  case Nil
  show ?case by (simp add: group_by_track_def entries_on_def List.map_filter_def)
next
  case (snoc r rs)
  let ?G = "group_by_track rs"
  have step: "group_by_track (rs @ [r]) = group_step ?G r" by (simp add: group_by_track_def)
  show ?case
  proof (cases "entry_of r")
    case None
    then show ?thesis using snoc unfolding step
      by (simp add: group_step_eq entries_on_snoc)
  next
    case (Some e)
    then show ?thesis using snoc unfolding step
      by (auto simp: group_step_eq entries_on_snoc AList.update_conv' AList.distinct_update)
  qed
qed

lemma group_by_track_mem:
  "(t, es) \<in> set (group_by_track rs) \<longleftrightarrow> es = entries_on rs t \<and> es \<noteq> []"
proof -
  have d: "distinct (map fst (group_by_track rs))"
    and m: "map_of (group_by_track rs) t =
        (if entries_on rs t = [] then None else Some (entries_on rs t))"
    using group_by_track_inv[of rs] by simp_all
  have "(t, es) \<in> set (group_by_track rs) \<longleftrightarrow> map_of (group_by_track rs) t = Some es"
    using d by simp
  also have "\<dots> \<longleftrightarrow> es = entries_on rs t \<and> es \<noteq> []"
    unfolding m by auto
  finally show ?thesis .
qed

lemma best_step_eq_fresh:
  "e_login e \<notin> fst ` set pb \<Longrightarrow> best_step pb e = pb @ [(e_login e, e)]"
  by (simp add: best_step_def map_of_eq_None_iff[THEN iffD2] update_fresh)

lemma player_best_distinct:
  "distinct (map e_login es) \<Longrightarrow> player_best_of es = map (\<lambda>e. (e_login e, e)) es"
proof (induction es rule: rev_induct)
  case Nil
  show ?case by (simp add: player_best_of_def)
next
  case (snoc e es)
  then have ih: "player_best_of es = map (\<lambda>e. (e_login e, e)) es" by simp
  have "e_login e \<notin> fst ` set (map (\<lambda>e. (e_login e, e)) es)"
    using snoc.prems by (auto simp: image_iff)
  then show ?case using ih by (simp add: player_best_of_def best_step_eq_fresh)
qed

lemma pairs_subset: "(x, y) \<in> set (pairs xs) \<Longrightarrow> x \<in> set xs \<and> y \<in> set xs"
  by (induction xs) auto

lemma pairs_cover:
  "x \<in> set xs \<Longrightarrow> y \<in> set xs \<Longrightarrow> x \<noteq> y \<Longrightarrow> (x, y) \<in> set (pairs xs) \<or> (y, x) \<in> set (pairs xs)"
  by (induction xs) auto

lemma rivalry_key_sym: "rivalry_key a b = rivalry_key b a"
  by (auto simp: rivalry_key_def)

lemma rivalry_key_eq_iff:
  "rivalry_key l1 l2 = rivalry_key a b \<longleftrightarrow> (l1 = a \<and> l2 = b) \<or> (l1 = b \<and> l2 = a)"
  by (auto simp: rivalry_key_def)

lemma decided_pairs_iff:
  assumes "a \<noteq> b"
  shows "(\<exists>pr\<in>set (pairs xs). rivalry_key a b = pair_key pr \<and> differ pr) \<longleftrightarrow>
         (\<exists>x\<in>set xs. \<exists>y\<in>set xs. fst x = a \<and> fst y = b \<and> e_rank (snd x) \<noteq> e_rank (snd y))"
proof
  assume "\<exists>pr\<in>set (pairs xs). rivalry_key a b = pair_key pr \<and> differ pr"
  then obtain x y where m: "(x, y) \<in> set (pairs xs)"
    and k: "rivalry_key (fst x) (fst y) = rivalry_key a b" and d: "e_rank (snd x) \<noteq> e_rank (snd y)"
    by (auto simp: pair_key_def differ_def)
  from pairs_subset[OF m] have xs: "x \<in> set xs" "y \<in> set xs" by simp_all
  from k have "(fst x = a \<and> fst y = b) \<or> (fst x = b \<and> fst y = a)"
    by (simp add: rivalry_key_eq_iff)
  then show "\<exists>x\<in>set xs. \<exists>y\<in>set xs. fst x = a \<and> fst y = b \<and> e_rank (snd x) \<noteq> e_rank (snd y)"
    using xs d by metis
next
  assume "\<exists>x\<in>set xs. \<exists>y\<in>set xs. fst x = a \<and> fst y = b \<and> e_rank (snd x) \<noteq> e_rank (snd y)"
  then obtain x y where xy: "x \<in> set xs" "y \<in> set xs" "fst x = a" "fst y = b"
    and d: "e_rank (snd x) \<noteq> e_rank (snd y)" by blast
  have "x \<noteq> y" using xy assms by auto
  from pairs_cover[OF xy(1,2) this]
  show "\<exists>pr\<in>set (pairs xs). rivalry_key a b = pair_key pr \<and> differ pr"
  proof
    assume "(x, y) \<in> set (pairs xs)"
    then show ?thesis using xy d by (force simp: pair_key_def differ_def)
  next
    assume "(y, x) \<in> set (pairs xs)"
    then show ?thesis using xy d rivalry_key_sym[of a b] by (force simp: pair_key_def differ_def)
  qed
qed

lemma decides_iff:
  assumes "distinct (map e_login es)" "a \<noteq> b"
  shows "decides es (rivalry_key a b) \<longleftrightarrow>
         a \<noteq> excluded_login \<and> b \<noteq> excluded_login \<and>
         (\<exists>ea\<in>set es. \<exists>eb\<in>set es. e_login ea = a \<and> e_login eb = b \<and> e_rank ea \<noteq> e_rank eb)"
proof -
  have pl: "players_of es = filter (\<lambda>(login, best). login \<noteq> excluded_login) (map (\<lambda>e. (e_login e, e)) es)"
    by (simp add: players_of_def player_best_distinct[OF assms(1)])
  have two: "2 \<le> length es" if "ea \<in> set es" "eb \<in> set es" "ea \<noteq> eb" for ea eb
  proof -
    have "card {ea, eb} \<le> card (set es)" using that by (intro card_mono) auto
    then show ?thesis using that(3) card_length[of es] by simp
  qed
  have "decides es (rivalry_key a b) \<longleftrightarrow> 2 \<le> length es \<and>
        (\<exists>x\<in>set (players_of es). \<exists>y\<in>set (players_of es). fst x = a \<and> fst y = b \<and> e_rank (snd x) \<noteq> e_rank (snd y))"
    unfolding decides_def decided_pairs_iff[OF assms(2)] ..
  also have "\<dots> \<longleftrightarrow> 2 \<le> length es \<and> a \<noteq> excluded_login \<and> b \<noteq> excluded_login \<and>
         (\<exists>ea\<in>set es. \<exists>eb\<in>set es. e_login ea = a \<and> e_login eb = b \<and> e_rank ea \<noteq> e_rank eb)"
    unfolding pl by auto
  also have "\<dots> \<longleftrightarrow> a \<noteq> excluded_login \<and> b \<noteq> excluded_login \<and>
         (\<exists>ea\<in>set es. \<exists>eb\<in>set es. e_login ea = a \<and> e_login eb = b \<and> e_rank ea \<noteq> e_rank eb)"
    using two by blast
  finally show ?thesis .
qed

lemma map_filter_login:
  "map e_login (List.map_filter entry_of xs) = map r_login (filter (\<lambda>r. entry_of r \<noteq> None) xs)"
  by (induction xs) (auto simp: List.map_filter_def entry_of_def)

lemma distinct_logins_on_track:
  assumes "distinct (map rkey rs)"
  shows "distinct (map r_login (filter (\<lambda>r. r_track r = t \<and> P r) rs))"
proof -
  let ?ys = "filter (\<lambda>r. r_track r = t \<and> P r) rs"
  have "distinct (map rkey ?ys)" using assms by (rule distinct_map_filter)
  moreover have "map rkey ?ys = map (\<lambda>l. (l, t)) (map r_login ?ys)"
    by (auto simp: rkey_def)
  ultimately have "distinct (map (\<lambda>l. (l, t)) (map r_login ?ys))" by metis
  then show ?thesis using distinct_map[of "\<lambda>l. (l, t)" "map r_login ?ys"] by blast
qed

lemma entries_on_distinct:
  assumes "distinct (map rkey rs)"
  shows "distinct (map e_login (entries_on rs t))"
proof -
  have "map e_login (entries_on rs t) =
        map r_login (filter (\<lambda>r. r_track r = t \<and> entry_of r \<noteq> None) rs)"
    by (simp add: entries_on_def map_filter_login conj_commute)
  then show ?thesis using distinct_logins_on_track[OF assms] by simp
qed

lemma set_map_filter: "set (List.map_filter f xs) = {y. \<exists>x\<in>set xs. f x = Some y}"
  by (induction xs) (auto simp: List.map_filter_def)

lemma entries_on_mem:
  "e \<in> set (entries_on rs t) \<longleftrightarrow> (\<exists>r\<in>set rs. r_track r = t \<and> entry_of r = Some e)"
  by (auto simp: entries_on_def set_map_filter)

lemma entries_differ_iff:
  "(\<exists>ea\<in>set (entries_on rs t). \<exists>eb\<in>set (entries_on rs t).
       e_login ea = a \<and> e_login eb = b \<and> e_rank ea \<noteq> e_rank eb) \<longleftrightarrow>
   (\<exists>ra\<in>set rs. \<exists>rb\<in>set rs. r_track ra = t \<and> r_track rb = t \<and>
       r_login ra = a \<and> r_login rb = b \<and> rank_differs ra rb)"
  (is "?L \<longleftrightarrow> ?R")
proof
  assume ?L
  then obtain ea eb where e: "ea \<in> set (entries_on rs t)" "eb \<in> set (entries_on rs t)"
    "e_login ea = a" "e_login eb = b" "e_rank ea \<noteq> e_rank eb" by blast
  obtain ra where ra: "ra \<in> set rs" "r_track ra = t" "entry_of ra = Some ea"
    using e(1) entries_on_mem by blast
  obtain rb where rb: "rb \<in> set rs" "r_track rb = t" "entry_of rb = Some eb"
    using e(2) entries_on_mem by blast
  from e ra rb show ?R
    by (intro bexI[of _ ra] bexI[of _ rb]) (auto simp: entry_of_def rank_differs_def)
next
  assume ?R
  then obtain ra rb where r: "ra \<in> set rs" "rb \<in> set rs" "r_track ra = t" "r_track rb = t"
    "r_login ra = a" "r_login rb = b" and d: "rank_differs ra rb" by blast
  from d obtain na nb where n: "rivalry_rank (r_rank ra) = Some na"
    "rivalry_rank (r_rank rb) = Some nb" "na \<noteq> nb"
    by (auto simp: rank_differs_def split: option.splits)
  obtain ea eb where e: "entry_of ra = Some ea" "entry_of rb = Some eb"
    "e_login ea = a" "e_login eb = b" "e_rank ea = na" "e_rank eb = nb"
    using n r by (simp add: entry_of_def)
  have "ea \<in> set (entries_on rs t)" "eb \<in> set (entries_on rs t)"
    using r e unfolding entries_on_mem by blast+
  then show ?L using e n(3) by blast
qed

lemma set_decided_tracks:
  "set (decided_tracks rs a b) =
     {t. \<exists>ra\<in>set rs. \<exists>rb\<in>set rs. r_track ra = t \<and> r_track rb = t \<and>
           r_login ra = a \<and> r_login rb = b \<and> rank_differs ra rb}"
  by (auto simp: decided_tracks_def)

lemma set_common_tracks:
  "set (common_tracks rs a b) =
     {t. \<exists>ra\<in>set rs. \<exists>rb\<in>set rs. r_track ra = t \<and> r_track rb = t \<and>
           r_login ra = a \<and> r_login rb = b}"
  by (auto simp: common_tracks_def)

lemma decided_le_common: "length (decided_tracks rs a b) \<le> length (common_tracks rs a b)"
proof -
  have "set (decided_tracks rs a b) \<subseteq> set (common_tracks rs a b)"
    unfolding set_decided_tracks set_common_tracks by blast
  then have "card (set (decided_tracks rs a b)) \<le> card (set (common_tracks rs a b))"
    by (intro card_mono) auto
  moreover have "distinct (decided_tracks rs a b)" "distinct (common_tracks rs a b)"
    by (simp_all add: decided_tracks_def common_tracks_def)
  ultimately show ?thesis by (simp add: distinct_card)
qed

lemma head_to_head_decided:
  assumes "distinct (map rkey rs)" "a \<noteq> b"
  shows "tracks_of (head_to_head (group_by_track rs)) (rivalry_key a b) =
         (if a \<noteq> excluded_login \<and> b \<noteq> excluded_login then set (decided_tracks rs a b) else {})"
proof -
  have "tracks_of (head_to_head (group_by_track rs)) (rivalry_key a b) =
        {t. entries_on rs t \<noteq> [] \<and> decides (entries_on rs t) (rivalry_key a b)}"
    by (auto simp: head_to_head_tracks group_by_track_mem)
  also have "\<dots> = {t. entries_on rs t \<noteq> [] \<and> a \<noteq> excluded_login \<and> b \<noteq> excluded_login \<and>
         (\<exists>ea\<in>set (entries_on rs t). \<exists>eb\<in>set (entries_on rs t).
             e_login ea = a \<and> e_login eb = b \<and> e_rank ea \<noteq> e_rank eb)}"
    using decides_iff[OF entries_on_distinct[OF assms(1)] assms(2)] by simp
  also have "\<dots> = {t. a \<noteq> excluded_login \<and> b \<noteq> excluded_login \<and>
         (\<exists>ea\<in>set (entries_on rs t). \<exists>eb\<in>set (entries_on rs t).
             e_login ea = a \<and> e_login eb = b \<and> e_rank ea \<noteq> e_rank eb)}"
    by auto
  also have "\<dots> = (if a \<noteq> excluded_login \<and> b \<noteq> excluded_login then set (decided_tracks rs a b) else {})"
    unfolding entries_differ_iff set_decided_tracks by auto
  finally show ?thesis .
qed

text \<open>
  What the code reports on deduplicated records: a pair of different logins is reported
  exactly when neither is the excluded login and their ranks differ on at least 3 of
  the tracks they share.
\<close>

lemma rivalry_pairs_iff:
  assumes "distinct (map rkey rs)" "a \<noteq> b"
  shows "rivalry_key a b \<in> set (rivalry_pairs rs) \<longleftrightarrow>
         a \<noteq> excluded_login \<and> b \<noteq> excluded_login \<and> 3 \<le> length (decided_tracks rs a b)"
proof -
  have "distinct (decided_tracks rs a b)" by (simp add: decided_tracks_def)
  then have "card (set (decided_tracks rs a b)) = length (decided_tracks rs a b)"
    by (rule distinct_card)
  then show ?thesis
    unfolding rivalry_pairs_card head_to_head_decided[OF assms] by simp
qed

lemma length_map_filter: "length (List.map_filter f xs) = length (filter (\<lambda>x. f x \<noteq> None) xs)"
  by (induction xs) (auto simp: List.map_filter_def)

lemma rivalry_entry_None_iff: "rivalry_entry nicks item \<noteq> None \<longleftrightarrow> 3 \<le> length (snd item)"
  by (cases item) (auto simp: rivalry_entry_def Let_def split: prod.splits)

lemma rivalry_entry_filter:
  "filter (\<lambda>x. rivalry_entry nicks x \<noteq> None) H =
   filter (\<lambda>(key, track_data). 3 \<le> length track_data) H"
  unfolding rivalry_entry_None_iff by (rule filter_cong) auto

lemma detect_rivalries_length:
  "length (fst (detect_rivalries self rs)) = length (rivalry_pairs rs)"
proof -
  obtain nicks self' where g: "get_all_latest_nicknames self rs = (nicks, self')"
    by (cases "get_all_latest_nicknames self rs")
  have "fst (detect_rivalries self rs) =
        py_sort_reverse shared_tracks
          (List.map_filter (rivalry_entry nicks) (head_to_head (group_by_track rs)))"
    by (simp add: detect_rivalries_def Let_def g)
  then have "length (fst (detect_rivalries self rs)) =
        length (filter (\<lambda>x. rivalry_entry nicks x \<noteq> None) (head_to_head (group_by_track rs)))"
    by (simp add: py_sort_reverse_def length_map_filter)
  then show ?thesis unfolding rivalry_entry_filter by (simp add: rivalry_pairs_def)
qed

text \<open>
  Claim C4. The claim does not hold of the code: a track on which the two ranks are
  equal never enters \<^verbatim>\<open>track_data\<close>, so \<^verbatim>\<open>shared_tracks = len(track_data)\<close> does not
  count it. Alice and bob share the tracks A, B and C and tie on C: nothing is
  reported. With a fourth track D on which they tie, the pair is reported with
  \<^verbatim>\<open>shared_tracks\<close> 3 and the tracks A, B, C, where they share four.
\<close>

theorem rivalry_tie_not_counted:
  "deduplicate_records (scenario_with_rank ''1'') = scenario_with_rank ''1'' \<and>
   common_tracks (scenario_with_rank ''1'') ''alice'' ''bob'' = [''A'', ''B'', ''C''] \<and>
   decided_tracks (scenario_with_rank ''1'') ''alice'' ''bob'' = [''A'', ''B''] \<and>
   ''alice'' \<noteq> excluded_login \<and> ''bob'' \<noteq> excluded_login \<and>
   rivalry_pairs (scenario_with_rank ''1'') = [] \<and>
   fst (detect_rivalries (new_generator ''db'') (scenario_with_rank ''1'')) = [] \<and>
   deduplicate_records scenario_fourth_tied = scenario_fourth_tied \<and>
   common_tracks scenario_fourth_tied ''alice'' ''bob'' = [''A'', ''B'', ''C'', ''D''] \<and>
   map (\<lambda>r. (player1 r, player2 r, shared_tracks r, tracks r))
     (fst (detect_rivalries (new_generator ''db'') scenario_fourth_tied)) =
     [(''Alice'', ''Bob'', 3, [''A'', ''B'', ''C''])]"
  by code_simp

section \<open>Malformed fields\<close>

lemma group_by_track_skip:
  "rivalry_rank (r_rank r) = None \<Longrightarrow> group_by_track (xs @ r # ys) = group_by_track (xs @ ys)"
  by (simp add: group_by_track_def group_step_def)

text \<open>
  Claim C6, as the code has it. A non-empty rank that \<^verbatim>\<open>int\<close> rejects is compared as
  999 by both deduplication functions; a non-empty rank that \<^verbatim>\<open>isdigit()\<close> rejects
  earns one base point; every record with a login and a track has its pair represented
  in the deduplicated result; rivalry detection skips a record whose rank \<^verbatim>\<open>int\<close>
  rejects, so the grouping and the reported pairs are those of the input without it;
  \<^verbatim>\<open>format_time\<close> answers infinity for an empty time and for one whose parsing raises.
\<close>

theorem malformed_fields:
  "(rank \<noteq> [] \<and> py_int rank = None \<longrightarrow>
      rank_or_999_truthy rank = 999 \<and> rank_or_999_isdigit rank = 999 \<and>
      rivalry_rank rank = None) \<and>
   (rank \<noteq> [] \<and> \<not> isdigit rank \<longrightarrow> base_points rank = Inr 1) \<and>
   (r \<in> set rs \<and> r_login r \<noteq> [] \<and> r_track r \<noteq> [] \<longrightarrow>
      rkey r \<in> rkey ` set (deduplicate_records rs)) \<and>
   (d \<in> set ds \<and> Login d \<noteq> [] \<and> Challenge d \<noteq> [] \<longrightarrow>
      dkey d \<in> dkey ` set (deduplicate_player_records ds)) \<and>
   (rivalry_rank (r_rank r) = None \<longrightarrow>
      group_by_track (xs @ r # ys) = group_by_track (xs @ ys) \<and>
      rivalry_pairs (xs @ r # ys) = rivalry_pairs (xs @ ys)) \<and>
   (time_str = [] \<or> parse_time to_float minsec time_str = None \<longrightarrow>
      format_time to_float minsec infinity time_str = infinity)"
proof -
  have 1: "rank_or_999_truthy rank = 999 \<and> rank_or_999_isdigit rank = 999 \<and>
      rivalry_rank rank = None"
    if "rank \<noteq> []" "py_int rank = None"
    using that
    by (simp add: rank_or_999_truthy_def rank_or_999_isdigit_def rivalry_rank_def)
  have 6: "base_points rank = Inr 1" if "rank \<noteq> []" "\<not> isdigit rank"
    using that by (simp add: base_points_def)
  have 2: "rkey r \<in> rkey ` set (deduplicate_records rs)"
    if "r \<in> set rs" "r_login r \<noteq> []" "r_track r \<noteq> []"
    unfolding deduplicate_records_def
    using that by (intro dedup_loop_covers) (simp_all add: rkey_def)
  have 3: "dkey d \<in> dkey ` set (deduplicate_player_records ds)"
    if "d \<in> set ds" "Login d \<noteq> []" "Challenge d \<noteq> []"
    unfolding deduplicate_player_records_def
    using that by (intro dedup_loop_covers) (simp_all add: dkey_def)
  have 4: "group_by_track (xs @ r # ys) = group_by_track (xs @ ys) \<and>
      rivalry_pairs (xs @ r # ys) = rivalry_pairs (xs @ ys)"
    if "rivalry_rank (r_rank r) = None"
    using group_by_track_skip[OF that] by (simp add: rivalry_pairs_def)
  have 5: "format_time to_float minsec infinity time_str = infinity"
    if "time_str = [] \<or> parse_time to_float minsec time_str = None"
    using that by (auto simp: format_time_def)
  show ?thesis using 1 2 3 4 5 6 by blast
qed

text \<open>
  The statement at the rank \<^verbatim>\<open>DNF\<close> and the time \<^verbatim>\<open>1:4x\<close>.
\<close>

theorem malformed_fields_witness:
  "''DNF'' \<noteq> [] \<and> py_int ''DNF'' = None \<and> \<not> isdigit ''DNF'' \<and>
   rank_or_999_truthy ''DNF'' = 999 \<and> rank_or_999_isdigit ''DNF'' = 999 \<and>
   base_points ''DNF'' = Inr 1 \<and> rivalry_rank ''DNF'' = None \<and>
   deduplicate_records
     [sample_row ''alice'' ''Alice'' ''A'' ''DNF'' ''2025-08-03'',
      sample_row ''alice'' ''Alice'' ''A'' ''1000'' ''2025-08-04''] =
     [sample_row ''alice'' ''Alice'' ''A'' ''DNF'' ''2025-08-03''] \<and>
   rkey (sample_row ''alice'' ''Alice'' ''A'' ''DNF'' ''2025-08-03'') \<in>
     rkey ` set (deduplicate_records
        [sample_row ''alice'' ''Alice'' ''A'' ''DNF'' ''2025-08-03'',
         sample_row ''alice'' ''Alice'' ''A'' ''1000'' ''2025-08-04'']) \<and>
   dkey (record_dict (sample_row ''alice'' ''Alice'' ''A'' ''DNF'' ''2025-08-03'')) \<in>
     dkey ` set (deduplicate_player_records
        [record_dict (sample_row ''alice'' ''Alice'' ''A'' ''DNF'' ''2025-08-03'')]) \<and>
   group_by_track ([] @ sample_row ''alice'' ''Alice'' ''A'' ''DNF'' ''2025-08-03'' # []) = group_by_track ([] @ []) \<and>
   parse_time sample_float sample_minsec ''1:4x'' = None \<and>
   format_time sample_float sample_minsec None ''1:4x'' = None \<and>
   format_time sample_float sample_minsec None ''1:40'' = Some 100"
proof -
  let ?r = "sample_row ''alice'' ''Alice'' ''A'' ''DNF'' ''2025-08-03''"
  let ?r2 = "sample_row ''alice'' ''Alice'' ''A'' ''1000'' ''2025-08-04''"
  have a: "''DNF'' \<noteq> [] \<and> py_int ''DNF'' = None \<and> \<not> isdigit ''DNF''" by code_simp
  have b: "?r \<in> set [?r, ?r2] \<and> r_login ?r \<noteq> [] \<and> r_track ?r \<noteq> []" by code_simp
  have c: "record_dict ?r \<in> set [record_dict ?r] \<and> Login (record_dict ?r) \<noteq> [] \<and>
           Challenge (record_dict ?r) \<noteq> []" by code_simp
  have d: "rivalry_rank (r_rank ?r) = None" by code_simp
  have e: "parse_time sample_float sample_minsec ''1:4x'' = None" by code_simp
  have f: "deduplicate_records [?r, ?r2] = [?r]" by code_simp
  have g: "format_time sample_float sample_minsec None ''1:40'' = Some 100" by code_simp
  show ?thesis
    using malformed_fields[of "''DNF''" ?r "[?r, ?r2]" "record_dict ?r" "[record_dict ?r]" "[]" "[]"
        "''1:4x''" sample_float sample_minsec None] a b c d e f g
    by simp
qed

text \<open>
  The claim as stated fails in rivalry detection: with alice's rank on the third track
  \<^verbatim>\<open>DNF\<close> the record is dropped and no rivalry is reported, while the same record with
  the rank 999 gives the rivalry 2-1.
\<close>

theorem malformed_rank_dropped_counterexample:
  "distinct (map rkey (scenario_with_rank ''DNF'')) \<and>
   rank_or_999_truthy ''DNF'' = 999 \<and>
   rivalry_pairs (scenario_with_rank ''DNF'') = [] \<and>
   rivalry_pairs (scenario_with_rank ''999'') = [(''alice'', ''bob'')] \<and>
   fst (detect_rivalries (new_generator ''db'') (scenario_with_rank ''DNF'')) = [] \<and>
   map score (fst (detect_rivalries (new_generator ''db'') (scenario_with_rank ''999''))) = [''2-1'']"
  by code_simp

section \<open>The weekend warrior\<close>

lemma weekend_step_eq:
  "weekend_step clock ww r =
     (if is_weekend clock r
      then AList.update (r_login r) ((case map_of ww (r_login r) of None \<Rightarrow> 0 | Some n \<Rightarrow> n) + 1) ww
      else ww)"
  by (auto simp: weekend_step_def is_weekend_def split: option.splits)

lemma weekend_counts_inv:
  "distinct (map fst (weekend_counts clock rs)) \<and>
   (\<forall>l. map_of (weekend_counts clock rs) l =
        (if weekend_of clock rs l = 0 then None else Some (weekend_of clock rs l)))"
proof (induction rs rule: rev_induct)
  case Nil
  show ?case by (simp add: weekend_counts_def weekend_of_def)
next
  case (snoc r rs)
  have step: "weekend_counts clock (rs @ [r]) = weekend_step clock (weekend_counts clock rs) r"
    by (simp add: weekend_counts_def)
  show ?case
  proof (cases "is_weekend clock r")
    case True
    then show ?thesis using snoc unfolding step
      by (auto simp: weekend_step_eq weekend_of_def AList.update_conv' AList.distinct_update)
  next
    case False
    then show ?thesis using snoc unfolding step
      by (auto simp: weekend_step_eq weekend_of_def)
  qed
qed

lemma weekend_counts_mem:
  "(l, c) \<in> set (weekend_counts clock rs) \<longleftrightarrow> c = weekend_of clock rs l \<and> 0 < c"
proof -
  have d: "distinct (map fst (weekend_counts clock rs))"
    and m: "map_of (weekend_counts clock rs) l =
        (if weekend_of clock rs l = 0 then None else Some (weekend_of clock rs l))"
    using weekend_counts_inv[of clock rs] by simp_all
  have "(l, c) \<in> set (weekend_counts clock rs) \<longleftrightarrow> map_of (weekend_counts clock rs) l = Some c"
    using d by simp
  also have "\<dots> \<longleftrightarrow> c = weekend_of clock rs l \<and> 0 < c"
    unfolding m by auto
  finally show ?thesis .
qed

lemma py_max_loop_props:
  "py_max_loop key b xs \<in> set (b # xs) \<and> (\<forall>x\<in>set (b # xs). key x \<le> key (py_max_loop key b xs))"
proof (induction xs arbitrary: b)
  case Nil
  show ?case by simp
next
  case (Cons x xs)
  let ?b' = "if key b < key x then x else b"
  have ih: "py_max_loop key ?b' xs \<in> set (?b' # xs) \<and>
            (\<forall>y\<in>set (?b' # xs). key y \<le> key (py_max_loop key ?b' xs))"
    by (rule Cons.IH)
  then have "key ?b' \<le> key (py_max_loop key ?b' xs)" by simp
  moreover have "key b \<le> key ?b'" "key x \<le> key ?b'" by auto
  ultimately have "key b \<le> key (py_max_loop key ?b' xs)" "key x \<le> key (py_max_loop key ?b' xs)"
    by (meson order_trans)+
  then show ?case using ih by auto
qed

lemma py_max_props:
  "py_max key xs = Some b \<Longrightarrow> b \<in> set xs \<and> (\<forall>x\<in>set xs. key x \<le> key b)"
  using py_max_loop_props[of key]
  by (cases xs) (auto simp: py_max_def)

lemma py_max_None: "py_max key xs = None \<longleftrightarrow> xs = []"
  by (cases xs) (auto simp: py_max_def)

lemma triple_image_iff:
  "(a, b, c) \<in> (\<lambda>(x, y). (x, y, f x y)) ` S \<longleftrightarrow> (a, b) \<in> S \<and> c = f a b"
  by force

lemma weekend_totals_mem:
  "(l, c, p) \<in> set (weekend_totals clock rs) \<longleftrightarrow>
     c = weekend_of clock rs l \<and> 0 < c \<and>
     p = of_nat c / of_nat (length (filter (\<lambda>r. r_login r = l) rs)) * 100"
proof -
  have "weekend_of clock rs l \<le> length (filter (\<lambda>r. r_login r = l) rs)"
    unfolding weekend_of_def
    using length_filter_le[of "is_weekend clock" "filter (\<lambda>r. r_login r = l) rs"]
    by (simp add: conj_commute)
  then have pos: "0 < weekend_of clock rs l \<Longrightarrow> 0 < length (filter (\<lambda>r. r_login r = l) rs)"
    by (rule less_le_trans[rotated])
  have "(l, c, p) \<in> set (weekend_totals clock rs) \<longleftrightarrow>
        (l, c) \<in> set (weekend_counts clock rs) \<and>
        p = (if 0 < length (filter (\<lambda>r. r_login r = l) rs)
             then of_nat c / of_nat (length (filter (\<lambda>r. r_login r = l) rs)) * 100 else 0)"
    unfolding weekend_totals_def Let_def set_map triple_image_iff ..
  then show ?thesis using pos by (auto simp: weekend_counts_mem)
qed

lemma weekend_totals_empty:
  "weekend_totals clock rs = [] \<longleftrightarrow> (\<forall>r\<in>set rs. \<not> is_weekend clock r)"
proof -
  have "weekend_totals clock rs = [] \<longleftrightarrow> weekend_counts clock rs = []"
    by (simp add: weekend_totals_def)
  also have "\<dots> \<longleftrightarrow> (\<forall>l c. (l, c) \<notin> set (weekend_counts clock rs))"
    by (cases "weekend_counts clock rs") auto
  also have "\<dots> \<longleftrightarrow> (\<forall>l. weekend_of clock rs l = 0)"
    unfolding weekend_counts_mem by auto
  also have "\<dots> \<longleftrightarrow> (\<forall>r\<in>set rs. \<not> is_weekend clock r)"
    by (auto simp: weekend_of_def filter_empty_conv)
  finally show ?thesis .
qed

text \<open>
  Claim C9, as the code has it. There is no weekend warrior exactly when no record is
  counted as a weekend record. Otherwise the one reported belongs to a login whose
  number of weekend records is positive and at least that of every login; the reported
  count is that number and the reported percentage is that number over the login's
  total number of records, times 100.
\<close>

theorem weekend_warrior_by_count:
  "(fst (weekend_warrior self clock records) = None \<longleftrightarrow>
      (\<forall>r\<in>set records. \<not> is_weekend clock r)) \<and>
   (\<forall>res. fst (weekend_warrior self clock records) = Some res \<longrightarrow>
      (\<exists>login.
         ww_player res = nick_of (fst (get_all_latest_nicknames self records)) login \<and>
         ww_count res = weekend_of clock records login \<and> 0 < ww_count res \<and>
         ww_percentage res =
           of_nat (weekend_of clock records login) /
           of_nat (length (filter (\<lambda>r. r_login r = login) records)) * 100 \<and>
         (\<forall>l. weekend_of clock records l \<le> ww_count res)))"
proof -
  obtain nicks self' where g: "get_all_latest_nicknames self records = (nicks, self')"
    by (cases "get_all_latest_nicknames self records")
  let ?m = "py_max (\<lambda>x. fst (snd x)) (weekend_totals clock records)"
  have w: "fst (weekend_warrior self clock records) =
        (case ?m of None \<Rightarrow> None
         | Some best \<Rightarrow> Some \<lparr>ww_player = nick_of nicks (fst best), ww_count = fst (snd best),
                               ww_percentage = snd (snd best)\<rparr>)"
    by (simp add: weekend_warrior_def g)
  have none: "fst (weekend_warrior self clock records) = None \<longleftrightarrow>
      (\<forall>r\<in>set records. \<not> is_weekend clock r)"
    unfolding w using py_max_None[of "\<lambda>x. fst (snd x)" "weekend_totals clock records"]
    by (auto simp: weekend_totals_empty split: option.splits)
  have some: "\<exists>login.
         ww_player res = nick_of (fst (get_all_latest_nicknames self records)) login \<and>
         ww_count res = weekend_of clock records login \<and> 0 < ww_count res \<and>
         ww_percentage res =
           of_nat (weekend_of clock records login) /
           of_nat (length (filter (\<lambda>r. r_login r = login) records)) * 100 \<and>
         (\<forall>l. weekend_of clock records l \<le> ww_count res)"
    if res: "fst (weekend_warrior self clock records) = Some res" for res
  proof -
    from res obtain l c p where m: "?m = Some (l, c, p)"
      and r: "res = \<lparr>ww_player = nick_of nicks l, ww_count = c, ww_percentage = p\<rparr>"
      unfolding w by (cases ?m) auto
    from py_max_props[OF m] have mem: "(l, c, p) \<in> set (weekend_totals clock records)"
      and mx: "\<forall>x\<in>set (weekend_totals clock records). fst (snd x) \<le> c" by simp_all
    from mem have c: "c = weekend_of clock records l" "0 < c"
      and p: "p = of_nat c / of_nat (length (filter (\<lambda>r. r_login r = l) records)) * 100"
      unfolding weekend_totals_mem by simp_all
    have "weekend_of clock records l' \<le> c" for l'
    proof (cases "weekend_of clock records l' = 0")
      case True
      then show ?thesis by simp
    next
      case False
      then have "(l', weekend_of clock records l',
                  of_nat (weekend_of clock records l') /
                  of_nat (length (filter (\<lambda>r. r_login r = l') records)) * 100)
                 \<in> set (weekend_totals clock records)"
        unfolding weekend_totals_mem by simp
      then show ?thesis using mx by fastforce
    qed
    then show ?thesis using r c p g by auto
  qed
  show ?thesis using none some by blast
qed

text \<open>
  The statement at five records: alice has two weekend records out of four, bob one
  out of one.
\<close>

theorem weekend_warrior_by_count_witness:
  "fst (weekend_warrior (new_generator ''db'') sample_clock weekend_sample) =
     Some \<lparr>ww_player = ''Alice'', ww_count = 2, ww_percentage = 50\<rparr> \<and>
   weekend_of sample_clock weekend_sample ''alice'' = 2 \<and>
   weekend_of sample_clock weekend_sample ''bob'' = 1 \<and>
   is_weekend sample_clock (hd weekend_sample)"
proof -
  have a: "fst (weekend_warrior (new_generator ''db'') sample_clock weekend_sample) =
     Some \<lparr>ww_player = ''Alice'', ww_count = 2, ww_percentage = 50\<rparr>" by code_simp
  have b: "weekend_of sample_clock weekend_sample ''alice'' = 2 \<and>
   weekend_of sample_clock weekend_sample ''bob'' = 1 \<and>
   is_weekend sample_clock (hd weekend_sample)" by code_simp
  show ?thesis
    using weekend_warrior_by_count[of "new_generator ''db''" sample_clock weekend_sample] a b
    by simp
qed

text \<open>
  The claim as stated fails: bob's percentage (100) is larger than alice's (50), and
  alice is selected, on her larger count.
\<close>

theorem weekend_warrior_percentage_counterexample:
  "fst (weekend_warrior (new_generator ''db'') sample_clock weekend_sample) =
     Some \<lparr>ww_player = ''Alice'', ww_count = 2, ww_percentage = 50\<rparr> \<and>
   weekend_totals sample_clock weekend_sample = [(''alice'', 2, 50), (''bob'', 1, 100)]"
  by code_simp

end
